theory Spec2Isabelle
  imports Main
begin

section \<open>Strings\<close>

text \<open>
  A Python \<open>str\<close> is modelled as a HOL \<open>string\<close>: one \<open>char\<close> per code point,
  for code points below 256. The source's handling of code points above 255 (the marks
  U+200E, U+200F, U+200B..U+200D and the spaces U+202F, U+2007) cannot occur on such
  strings and is the identity here.
\<close>

definition nl :: char where
  "nl = CHR 0x0A"

definition is_space :: "char \<Rightarrow> bool" where
  \<comment> \<open>\<open>str.isspace\<close> and the regex class \<open>\s\<close> on code points below 256:
      9 to 13, 28 to 32, 133 and 160\<close>
  "is_space c = (c \<in> set [CHR 0x09, CHR 0x0A, CHR 0x0B, CHR 0x0C, CHR 0x0D, CHR 0x1C, CHR 0x1D,
                             CHR 0x1E, CHR 0x1F, CHR 0x20, CHR 0x85, CHR 0xA0])"

definition is_digit :: "char \<Rightarrow> bool" where
  \<comment> \<open>the regex class \<open>\d\<close>\<close>
  "is_digit c = (c \<in> set ''0123456789'')"

definition is_word :: "char \<Rightarrow> bool" where
  \<comment> \<open>the regex class \<open>\w\<close>: \<open>str.isalnum\<close> or the underscore\<close>
  "is_word c =
     (let n = (of_char c :: nat)
      in (48 \<le> n \<and> n \<le> 57) \<or> (65 \<le> n \<and> n \<le> 90) \<or> (97 \<le> n \<and> n \<le> 122) \<or> n = 95
         \<or> n = 170 \<or> n = 178 \<or> n = 179 \<or> n = 181 \<or> n = 185 \<or> n = 186
         \<or> n = 188 \<or> n = 189 \<or> n = 190
         \<or> (192 \<le> n \<and> n \<le> 214) \<or> (216 \<le> n \<and> n \<le> 246) \<or> 248 \<le> n)"

definition is_upper :: "char \<Rightarrow> bool" where
  \<comment> \<open>the code points below 256 that \<open>str.lower\<close> changes: A to Z, and 192 to 222 but 215\<close>
  "is_upper c =
     (let n = (of_char c :: nat)
      in (65 \<le> n \<and> n \<le> 90) \<or> (192 \<le> n \<and> n \<le> 222 \<and> n \<noteq> 215))"

definition lower_char :: "char \<Rightarrow> char" where
  \<comment> \<open>the lower-case letter is 32 above the upper-case one: the bit of weight 32 is set\<close>
  "lower_char c =
     (if is_upper c
      then (case c of Char b0 b1 b2 b3 b4 b5 b6 b7 \<Rightarrow> Char b0 b1 b2 b3 b4 True b6 b7)
      else c)"

definition lower :: "string \<Rightarrow> string" where
  \<comment> \<open>\<open>str.lower()\<close>\<close>
  "lower s = map lower_char s"

definition strip :: "string \<Rightarrow> string" where
  \<comment> \<open>\<open>str.strip()\<close>\<close>
  "strip s = rev (dropWhile is_space (rev (dropWhile is_space s)))"

definition strip_chars :: "char \<Rightarrow> string \<Rightarrow> string" where
  \<comment> \<open>\<open>s.strip(c)\<close> for a single character\<close>
  "strip_chars c s = rev (dropWhile (\<lambda>x. x = c) (rev (dropWhile (\<lambda>x. x = c) s)))"

definition startswith :: "string \<Rightarrow> string \<Rightarrow> bool" where
  \<comment> \<open>\<open>s.startswith(p)\<close>\<close>
  "startswith s p = (take (length p) s = p)"

definition endswith :: "string \<Rightarrow> string \<Rightarrow> bool" where
  "endswith s p = (length p \<le> length s \<and> drop (length s - length p) s = p)"

fun contains :: "string \<Rightarrow> string \<Rightarrow> bool" where
  \<comment> \<open>\<open>sub in s\<close>\<close>
  "contains [] sub = (sub = [])"
| "contains (c # cs) sub = (startswith (c # cs) sub \<or> contains cs sub)"

fun join :: "string \<Rightarrow> string list \<Rightarrow> string" where
  \<comment> \<open>\<open>sep.join(xs)\<close>\<close>
  "join sep [] = []"
| "join sep [x] = x"
| "join sep (x # y # ys) = x @ sep @ join sep (y # ys)"

fun split_on :: "char \<Rightarrow> string \<Rightarrow> string list" where
  \<comment> \<open>\<open>s.split(c)\<close> for a single character: always at least one part\<close>
  "split_on d [] = [[]]"
| "split_on d (c # cs) =
     (if c = d then [] # split_on d cs
      else case split_on d cs of [] \<Rightarrow> [[c]] | w # ws \<Rightarrow> (c # w) # ws)"

fun split_ws :: "string \<Rightarrow> string list" where
  \<comment> \<open>the maximal runs of non-whitespace: how the parser splits a \<open>class\<close> attribute\<close>
  "split_ws [] = []"
| "split_ws (c # cs) =
     (if is_space c then split_ws cs
      else case cs of
             [] \<Rightarrow> [[c]]
           | d # _ \<Rightarrow> if is_space d then [c] # split_ws cs
                      else (case split_ws cs of [] \<Rightarrow> [[c]] | w # ws \<Rightarrow> (c # w) # ws))"

definition replace_char :: "char \<Rightarrow> char \<Rightarrow> string \<Rightarrow> string" where
  \<comment> \<open>\<open>s.replace(a, b)\<close> for single characters\<close>
  "replace_char a b s = map (\<lambda>c. if c = a then b else c) s"

definition truthy :: "string option \<Rightarrow> bool" where
  \<comment> \<open>Python truth of an \<open>Optional[str]\<close>: neither \<open>None\<close> nor empty\<close>
  "truthy v = (case v of None \<Rightarrow> False | Some s \<Rightarrow> s \<noteq> [])"

section \<open>Case-insensitive tag collection\<close>

text \<open>
  \<open>uniq_push(arr, val)\<close> appends to the list in place; the model returns the new list.
  \<open>val\<close> is \<open>Optional[str]\<close>; \<open>not val\<close> holds for \<open>None\<close> and for the empty string.
\<close>

definition uniq_push :: "string list \<Rightarrow> string option \<Rightarrow> string list" where
  "uniq_push arr val =
     (case val of
        None \<Rightarrow> arr
      | Some v \<Rightarrow>
          if v = [] then arr
          else let val_norm = strip v
               in if val_norm = [] then arr
                  else if lower val_norm \<notin> set (map lower arr)
                       then arr @ [val_norm] else arr)"

definition push_all :: "string list \<Rightarrow> string option list \<Rightarrow> string list" where
  \<comment> \<open>a loop that pushes every candidate in turn\<close>
  "push_all arr vals = foldl uniq_push arr vals"

section \<open>Regular expressions\<close>

text \<open>
  The patterns of the source use literals, character classes, repetition of a single class,
  alternation, \<open>\b\<close>, \<open>^\<close> and \<open>$\<close>. \<open>rmatch\<close> is a backtracking matcher: from a
  position (the text before it, reversed, and the text after it) it lists the positions
  where a match can end, in the order in which Python's engine tries them (first
  alternative first, greedy repetition longest first).
\<close>

datatype rx =
    Eps
  | Lit string
  | LitI string
  | Cls "char \<Rightarrow> bool"
  | Seq rx rx
  | Alt rx rx
  | Rep "char \<Rightarrow> bool" nat "nat option"
  | WordB
  | Bol
  | Eol

fun ci_prefix :: "string \<Rightarrow> string \<Rightarrow> bool" where
  \<comment> \<open>the text starts with the literal, letter case ignored\<close>
  "ci_prefix [] s = True"
| "ci_prefix (c # cs) [] = False"
| "ci_prefix (c # cs) (d # ds) =
     (if c = d then ci_prefix cs ds
      else if lower_char c = lower_char d then ci_prefix cs ds
      else False)"

definition word_at :: "string \<Rightarrow> bool" where
  "word_at s = (case s of [] \<Rightarrow> False | c # _ \<Rightarrow> is_word c)"

fun rmatch :: "rx \<Rightarrow> string \<times> string \<Rightarrow> (string \<times> string) list" where
  "rmatch Eps st = [st]"
| "rmatch (Lit l) (b, s) =
     (if take (length l) s = l then [(rev l @ b, drop (length l) s)] else [])"
| "rmatch (LitI l) (b, s) =
     (if ci_prefix l s then [(rev (take (length l) s) @ b, drop (length l) s)] else [])"
| "rmatch (Cls P) (b, s) = (case s of [] \<Rightarrow> [] | c # cs \<Rightarrow> if P c then [(c # b, cs)] else [])"
| "rmatch (Seq x y) st = concat (map (rmatch y) (rmatch x st))"
| "rmatch (Alt x y) st = rmatch x st @ rmatch y st"
| "rmatch (Rep P lo hi) (b, s) =
     (let run = length (takeWhile P s);
          n = (case hi of None \<Rightarrow> run | Some h \<Rightarrow> min run h)
      in map (\<lambda>k. (rev (take k s) @ b, drop k s)) (rev [lo..<Suc n]))"
| "rmatch WordB (b, s) = (if word_at b \<noteq> word_at s then [(b, s)] else [])"
| "rmatch Bol (b, s) = (if b = [] then [(b, s)] else [])"
| "rmatch Eol (b, s) = (if s = [] \<or> s = [nl] then [(b, s)] else [])"

definition match_len :: "rx \<Rightarrow> string \<Rightarrow> string \<Rightarrow> nat option" where
  \<comment> \<open>the length of the match the engine finds at this position, if any\<close>
  "match_len r b s =
     (case rmatch r (b, s) of [] \<Rightarrow> None | (b', s') # _ \<Rightarrow> Some (length s - length s'))"

fun search_from :: "rx \<Rightarrow> string \<Rightarrow> string \<Rightarrow> string option" where
  "search_from r b [] = (case match_len r b [] of None \<Rightarrow> None | Some k \<Rightarrow> Some [])"
| "search_from r b (c # cs) =
     (case match_len r b (c # cs) of
        Some k \<Rightarrow> Some (take k (c # cs))
      | None \<Rightarrow> search_from r (c # b) cs)"

definition re_search :: "rx \<Rightarrow> string \<Rightarrow> string option" where
  \<comment> \<open>\<open>re.search(r, s)\<close>: the text of the leftmost match (\<open>m.group(0)\<close>)\<close>
  "re_search r s = search_from r [] s"

definition re_match :: "rx \<Rightarrow> string \<Rightarrow> string option" where
  \<comment> \<open>\<open>re.match(r, s)\<close>: a match at the start only\<close>
  "re_match r s = (case match_len r [] s of None \<Rightarrow> None | Some k \<Rightarrow> Some (take k s))"

definition matches :: "rx \<Rightarrow> string \<Rightarrow> bool" where
  "matches r s = (re_search r s \<noteq> None)"

text \<open>
  \<open>re.sub(r, repl, s)\<close> for a pattern that matches no empty string (none of the source's
  substitution patterns does): leftmost matches, not overlapping, each replaced by
  \<open>repl\<close>. The counter is the number of characters of the current match still to skip.
\<close>

fun sub_from :: "rx \<Rightarrow> string \<Rightarrow> string \<Rightarrow> nat \<Rightarrow> string \<Rightarrow> string" where
  "sub_from r repl b k [] = []"
| "sub_from r repl b k (c # cs) =
     (if 0 < k then sub_from r repl (c # b) (k - 1) cs
      else case match_len r b (c # cs) of
             None \<Rightarrow> c # sub_from r repl (c # b) 0 cs
           | Some n \<Rightarrow>
               if n = 0 then c # sub_from r repl (c # b) 0 cs
               else repl @ sub_from r repl (c # b) (n - 1) cs)"

definition re_sub :: "rx \<Rightarrow> string \<Rightarrow> string \<Rightarrow> string" where
  "re_sub r repl s = sub_from r repl [] 0 s"

definition rplus :: "(char \<Rightarrow> bool) \<Rightarrow> rx" where
  "rplus P = Rep P 1 None"

definition rstar :: "(char \<Rightarrow> bool) \<Rightarrow> rx" where
  "rstar P = Rep P 0 None"

definition ropt :: "rx \<Rightarrow> rx" where
  "ropt r = Alt r Eps"

fun seqs :: "rx list \<Rightarrow> rx" where
  "seqs [] = Eps"
| "seqs [r] = r"
| "seqs (r # rs) = Seq r (seqs rs)"

fun alts :: "rx list \<Rightarrow> rx" where
  "alts [] = Cls (\<lambda>c. False)"
| "alts [r] = r"
| "alts (r # rs) = Alt r (alts rs)"

definition normalize_whitespace :: "string \<Rightarrow> string" where
  \<comment> \<open>on a string (the \<open>None\<close> case is handled where it is called)\<close>
  "normalize_whitespace s =
     strip (re_sub (rplus is_space) '' '' (replace_char (CHR 0xA0) CHR '' '' s))"

section \<open>The parsed page\<close>

text \<open>
  The model starts from the tree the HTML parser delivers (\<open>BeautifulSoup(html, "lxml")\<close>):
  strings and elements with a name, attributes and children. The attributes are the
  dictionary \<open>attrs\<close> as an association list (the first entry of a key counts); an
  attribute value is the text of the markup, and the list the library makes of a
  \<open>class\<close> or \<open>rel\<close> attribute is \<open>split_ws\<close> of it.

  A string of the tree is an object of the class \<open>NavigableString\<close> or of one of its
  subclasses. The parser gives the class: \<open>Comment\<close> to a comment, and to the text inside
  a \<open>script\<close>, \<open>style\<close>, \<open>template\<close>, \<open>rt\<close> or \<open>rp\<close> element the class
  that belongs to the innermost such element. The source tests \<open>isinstance(n,
  NavigableString)\<close>, which holds for every class; the library's \<open>get_text\<close> looks at
  the exact class.

  \<open>Decomposed\<close> marks the place of an element that \<open>decompose()\<close> has removed: every
  traversal passes over it, so that the positions of the other nodes stay what they were.
  A \<open>Tag\<close> object of the source is a path from the root of the page to an element.
\<close>

type_synonym attrs = "(string \<times> string) list"

datatype string_class =
    CData | Comment | Declaration | Doctype | ProcessingInstruction
  | Script | Stylesheet | TemplateString | RubyTextString | RubyParenthesisString

datatype node =
    NavigableString string  \<comment> \<open>a string whose class is \<open>NavigableString\<close> itself\<close>
  | Typed_string string_class string  \<comment> \<open>a string of a subclass\<close>
  | Tag string attrs "node list"
  | Decomposed

type_synonym path = "nat list"

definition is_tag :: "node \<Rightarrow> bool" where
  "is_tag n = (case n of Tag nm a cs \<Rightarrow> True | _ \<Rightarrow> False)"

definition name_of :: "node \<Rightarrow> string" where
  "name_of n = (case n of Tag nm a cs \<Rightarrow> nm | _ \<Rightarrow> [])"

definition attrs_of :: "node \<Rightarrow> attrs" where
  "attrs_of n = (case n of Tag nm a cs \<Rightarrow> a | _ \<Rightarrow> [])"

definition contents :: "node \<Rightarrow> node list" where
  \<comment> \<open>\<open>n.contents\<close>, \<open>n.children\<close>\<close>
  "contents n = (case n of Tag nm a cs \<Rightarrow> filter (\<lambda>c. c \<noteq> Decomposed) cs | _ \<Rightarrow> [])"

definition get :: "node \<Rightarrow> string \<Rightarrow> string option" where
  \<comment> \<open>\<open>n.get(k)\<close>\<close>
  "get n k = map_of (attrs_of n) k"

definition get_or :: "node \<Rightarrow> string \<Rightarrow> string \<Rightarrow> string" where
  \<comment> \<open>\<open>n.get(k, d)\<close>\<close>
  "get_or n k d = (case get n k of None \<Rightarrow> d | Some v \<Rightarrow> v)"

definition has_attr :: "node \<Rightarrow> string \<Rightarrow> bool" where
  "has_attr n k = (get n k \<noteq> None)"

definition classes :: "node \<Rightarrow> string list" where
  \<comment> \<open>\<open>n.get("class", [])\<close>\<close>
  "classes n = (case get n ''class'' of None \<Rightarrow> [] | Some v \<Rightarrow> split_ws v)"

fun descendants :: "node \<Rightarrow> node list"
  and descendants_list :: "node list \<Rightarrow> node list" where
  "descendants (Tag nm a cs) = descendants_list cs"
| "descendants (NavigableString s) = []"
| "descendants (Typed_string k s) = []"
| "descendants Decomposed = []"
| "descendants_list [] = []"
| "descendants_list (c # cs) =
     (if c = Decomposed then descendants_list cs
      else c # descendants c @ descendants_list cs)"

definition is_string :: "node \<Rightarrow> bool" where
  \<comment> \<open>\<open>isinstance(n, NavigableString)\<close>\<close>
  "is_string n = (case n of NavigableString s \<Rightarrow> True | Typed_string k s \<Rightarrow> True | _ \<Rightarrow> False)"

definition str_of :: "node \<Rightarrow> string" where
  \<comment> \<open>\<open>str(n)\<close> of a string\<close>
  "str_of n = (case n of NavigableString s \<Rightarrow> s | Typed_string k s \<Rightarrow> s | _ \<Rightarrow> [])"

definition string_descendants :: "node \<Rightarrow> string list" where
  \<comment> \<open>the strings below an element, of every class, in document order\<close>
  "string_descendants n = map str_of (filter is_string (descendants n))"

definition string_containers :: "string \<Rightarrow> string_class option" where
  \<comment> \<open>the builder's table \<open>string_containers\<close>: the class of the strings inside an
      element of this name\<close>
  "string_containers nm =
     (if nm = ''rt'' then Some RubyTextString
      else if nm = ''rp'' then Some RubyParenthesisString
      else if nm = ''style'' then Some Stylesheet
      else if nm = ''script'' then Some Script
      else if nm = ''template'' then Some TemplateString
      else None)"

definition interesting :: "node \<Rightarrow> node \<Rightarrow> bool" where
  \<comment> \<open>the class of the string \<open>d\<close> is one of \<open>t.interesting_string_types\<close>: for an
      element of the table its own class of strings, for any other element
      \<open>NavigableString\<close> itself and \<open>CData\<close>\<close>
  "interesting t d =
     (case string_containers (name_of t) of
        None \<Rightarrow> (case d of NavigableString s \<Rightarrow> True | Typed_string k s \<Rightarrow> k = CData
                 | _ \<Rightarrow> False)
      | Some c \<Rightarrow> (case d of Typed_string k s \<Rightarrow> k = c | _ \<Rightarrow> False))"

definition all_strings :: "node \<Rightarrow> string list" where
  \<comment> \<open>\<open>n._all_strings()\<close>: the strings below the element whose class is interesting
      for it\<close>
  "all_strings n = map str_of (filter (interesting n) (descendants n))"

definition get_text :: "node \<Rightarrow> string" where
  \<comment> \<open>\<open>n.get_text()\<close>, \<open>n.text\<close>\<close>
  "get_text n = concat (all_strings n)"

definition get_text_sep :: "string \<Rightarrow> node \<Rightarrow> string" where
  \<comment> \<open>\<open>n.get_text(sep)\<close>\<close>
  "get_text_sep sep n = join sep (all_strings n)"

definition get_text_strip :: "string \<Rightarrow> node \<Rightarrow> string" where
  \<comment> \<open>\<open>n.get_text(sep, strip=True)\<close>: each string stripped, the empty ones left out\<close>
  "get_text_strip sep n = join sep (filter (\<lambda>s. s \<noteq> []) (map strip (all_strings n)))"

fun string_of :: "node \<Rightarrow> string option"
  and string_of_list :: "node list \<Rightarrow> string option" where
  \<comment> \<open>\<open>n.string\<close>: the text of a string of any class; for an element with exactly one
      child, that child's \<open>string\<close>; \<open>None\<close> otherwise\<close>
  "string_of (NavigableString s) = Some s"
| "string_of (Typed_string k s) = Some s"
| "string_of Decomposed = None"
| "string_of (Tag nm a cs) = string_of_list cs"
| "string_of_list [] = None"
| "string_of_list (c # cs) =
     (if c = Decomposed then string_of_list cs
      else if list_all (\<lambda>d. d = Decomposed) cs then string_of c else None)"

definition find_all :: "(node \<Rightarrow> bool) \<Rightarrow> node \<Rightarrow> node list" where
  \<comment> \<open>\<open>n.find_all(...)\<close>: the elements below \<open>n\<close> that satisfy the test, in document order\<close>
  "find_all P n = filter (\<lambda>d. is_tag d \<and> P d) (descendants n)"

definition find_first :: "(node \<Rightarrow> bool) \<Rightarrow> node \<Rightarrow> node option" where
  \<comment> \<open>\<open>n.find(...)\<close>\<close>
  "find_first P n = find (\<lambda>d. is_tag d \<and> P d) (descendants n)"

fun at :: "node \<Rightarrow> path \<Rightarrow> node option" where
  \<comment> \<open>the element a path leads to; \<open>None\<close> when it lies in a removed part\<close>
  "at Decomposed p = None"
| "at n [] = Some n"
| "at (Tag nm a cs) (i # p) = (if i < length cs then at (cs ! i) p else None)"
| "at (NavigableString s) (i # p) = None"
| "at (Typed_string k s) (i # p) = None"

fun put :: "node \<Rightarrow> path \<Rightarrow> node \<Rightarrow> node" where
  \<comment> \<open>the page with the element at the path replaced\<close>
  "put n [] m = m"
| "put (Tag nm a cs) (i # p) m =
     (if i < length cs then Tag nm a (cs[i := put (cs ! i) p m]) else Tag nm a cs)"
| "put n (i # p) m = n"

fun paths :: "node \<Rightarrow> (path \<times> node) list"
  and paths_list :: "nat \<Rightarrow> node list \<Rightarrow> (path \<times> node) list" where
  \<comment> \<open>the nodes below a node with their paths, in document order\<close>
  "paths (Tag nm a cs) = paths_list 0 cs"
| "paths (NavigableString s) = []"
| "paths (Typed_string k s) = []"
| "paths Decomposed = []"
| "paths_list i [] = []"
| "paths_list i (c # cs) =
     (if c = Decomposed then paths_list (Suc i) cs
      else ([i], c) # map (\<lambda>(p, d). (i # p, d)) (paths c) @ paths_list (Suc i) cs)"

definition find_path :: "(node \<Rightarrow> bool) \<Rightarrow> node \<Rightarrow> path option" where
  \<comment> \<open>where \<open>n.find(...)\<close> finds its element\<close>
  "find_path P n = map_option fst (find (\<lambda>(p, d). is_tag d \<and> P d) (paths n))"

definition select :: "(node \<Rightarrow> bool) \<Rightarrow> node \<Rightarrow> (path \<times> node) list" where
  \<comment> \<open>\<open>n.select(...)\<close> for a selector without combinators, each match with its path\<close>
  "select P n = filter (\<lambda>(p, d). is_tag d \<and> P d) (paths n)"

text \<open>
  A selector with descendant combinators is a list of tests, the innermost last; an element
  matches when it passes the last test and its ancestors pass the others in order.
\<close>

fun ancestors_match :: "(node \<Rightarrow> bool) list \<Rightarrow> node list \<Rightarrow> bool" where
  \<comment> \<open>tests from the innermost ancestor outwards, against the ancestors, nearest first\<close>
  "ancestors_match [] anc = True"
| "ancestors_match (t # ts) [] = False"
| "ancestors_match (t # ts) (a # anc) =
     ((t a \<and> ancestors_match ts anc) \<or> ancestors_match (t # ts) anc)"

fun with_ancestors :: "node list \<Rightarrow> node \<Rightarrow> (path \<times> node list \<times> node) list"
  and with_ancestors_list ::
    "node list \<Rightarrow> nat \<Rightarrow> node list \<Rightarrow> (path \<times> node list \<times> node) list" where
  \<comment> \<open>the nodes below a node, each with its path and its ancestors, nearest first, in
      document order\<close>
  "with_ancestors anc (Tag nm a cs) = with_ancestors_list (Tag nm a cs # anc) 0 cs"
| "with_ancestors anc (NavigableString s) = []"
| "with_ancestors anc (Typed_string k s) = []"
| "with_ancestors anc Decomposed = []"
| "with_ancestors_list anc i [] = []"
| "with_ancestors_list anc i (c # cs) =
     (if c = Decomposed then with_ancestors_list anc (Suc i) cs
      else ([i], anc, c) # map (\<lambda>(p, up, d). (i # p, up, d)) (with_ancestors anc c)
           @ with_ancestors_list anc (Suc i) cs)"

definition select_nested :: "(node \<Rightarrow> bool) list list \<Rightarrow> node \<Rightarrow> (path \<times> node) list" where
  \<comment> \<open>\<open>soup.select(...)\<close> for a comma-separated list of selectors with descendant
      combinators, each match with its path\<close>
  "select_nested sels n =
     map (\<lambda>(p, anc, d). (p, d))
       (filter (\<lambda>(p, anc, d). is_tag d \<and>
          list_ex (\<lambda>sel. sel \<noteq> [] \<and> last sel d \<and> ancestors_match (rev (butlast sel)) anc) sels)
          (with_ancestors [] n))"

definition class_search :: "rx \<Rightarrow> node \<Rightarrow> bool" where
  \<comment> \<open>the library's test of a \<open>class\<close> attribute against a compiled pattern: some class of
      the list matches, or the list joined by spaces does\<close>
  "class_search r n =
     (case get n ''class'' of
        None \<Rightarrow> False
      | Some v \<Rightarrow> list_ex (matches r) (split_ws v) \<or> matches r (join '' '' (split_ws v)))"

definition css_name :: "string \<Rightarrow> node \<Rightarrow> bool" where
  \<comment> \<open>a type selector\<close>
  "css_name nm n = (lower (name_of n) = nm)"

definition css_class :: "string \<Rightarrow> node \<Rightarrow> bool" where
  \<comment> \<open>\<open>.c\<close>\<close>
  "css_class c n = (c \<in> set (classes n))"

definition css_attr_prefix :: "string \<Rightarrow> string \<Rightarrow> node \<Rightarrow> bool" where
  \<comment> \<open>\<open>[k^="v"]\<close>\<close>
  "css_attr_prefix k v n = (case get n k of None \<Rightarrow> False | Some x \<Rightarrow> startswith x v)"

definition css_attr_contains :: "string \<Rightarrow> string \<Rightarrow> node \<Rightarrow> bool" where
  \<comment> \<open>\<open>[k*="v"]\<close>; a \<open>class\<close> attribute is compared as its list joined by spaces\<close>
  "css_attr_contains k v n =
     (case get n k of
        None \<Rightarrow> False
      | Some x \<Rightarrow> contains (if k = ''class'' then join '' '' (split_ws x) else x) v)"

definition css_attr_word :: "string \<Rightarrow> string \<Rightarrow> node \<Rightarrow> bool" where
  \<comment> \<open>\<open>[k~="v"]\<close>\<close>
  "css_attr_word k v n = (case get n k of None \<Rightarrow> False | Some x \<Rightarrow> v \<in> set (split_ws x))"

section \<open>Library functions taken as parameters\<close>

datatype json =
    JNull
  | JBool bool
  | JNum int
  | JStr string
  | JArr "json list"
  | JObj "(string \<times> json) list"

text \<open>
  \<open>json_loads\<close> is \<open>json.loads\<close>, \<open>None\<close> when it raises. \<open>urljoin\<close> is
  \<open>urllib.parse.urljoin\<close>, \<open>None\<close> when it raises. \<open>url_path\<close> is
  \<open>urlparse(url).path\<close>. The timestamp heuristic \<open>parse_datetime_candidate\<close> rests on
  \<open>datetime.strptime\<close> and is not embedded: it enters as a function of the page and of the
  container's path. Every theorem below holds for every choice of the four.
\<close>

record env =
  json_loads :: "string \<Rightarrow> json option"
  urljoin :: "string \<Rightarrow> string \<Rightarrow> string option"
  url_path :: "string \<Rightarrow> string"
  parse_datetime_candidate :: "node \<Rightarrow> path \<Rightarrow> string option"

section \<open>The conservative renderer\<close>

definition BLOCK_BREAK_TAGS :: "string list" where
  "BLOCK_BREAK_TAGS = [''p'', ''div'', ''section'', ''article'']"

definition LINE_BREAK_TAGS :: "string list" where
  "LINE_BREAK_TAGS = [''br'', ''hr'', ''li'']"

definition absolutize :: "env \<Rightarrow> string \<Rightarrow> string \<Rightarrow> string" where
  \<comment> \<open>\<open>try: href = urljoin(base_url, href) except Exception: pass\<close>\<close>
  "absolutize e base_url href = (case urljoin e base_url href of None \<Rightarrow> href | Some u \<Rightarrow> u)"

definition ends_nl :: "string list \<Rightarrow> bool" where
  \<comment> \<open>\<open>pieces and pieces[-1].endswith("\n")\<close>\<close>
  "ends_nl pieces = (pieces \<noteq> [] \<and> endswith (last pieces) [nl])"

text \<open>
  \<open>walk\<close> appends to the list \<open>pieces\<close> of the enclosing function; the model passes the
  list in and returns it. \<open>branch_of\<close> is the chain of tests on the lower-cased tag name,
  in the source's order. \<open>walk_children\<close> is \<open>for c in n.children: walk(c)\<close>;
  \<open>walk_items\<close> is the loop over \<open>n.find_all("li", recursive=False)\<close>.
\<close>

datatype branch =
  Skipped | Anchor | Image | Listing | Code | Inline | Block_break | Line_break | Default

definition branch_of :: "string \<Rightarrow> branch" where
  "branch_of name =
     (if name \<in> set [''script'', ''style'', ''noscript''] then Skipped
      else if name = ''a'' then Anchor
      else if name = ''img'' then Image
      else if name \<in> set [''ul'', ''ol''] then Listing
      else if name \<in> set [''code'', ''kbd''] then Code
      else if name \<in> set [''strong'', ''b'', ''em'', ''i'', ''u'', ''span''] then Inline
      else if name \<in> set BLOCK_BREAK_TAGS then Block_break
      else if name \<in> set LINE_BREAK_TAGS then Line_break
      else Default)"

definition anchor_piece :: "env \<Rightarrow> string \<Rightarrow> node \<Rightarrow> string" where
  \<comment> \<open>what the branch \<open>name == "a"\<close> appends\<close>
  "anchor_piece e base_url n =
     (let href = strip (get_or n ''href'' []);
          text = get_text_strip '' '' n
      in if startswith text ''@'' then text
         else if href \<noteq> [] then ''['' @ text @ '']('' @ absolutize e base_url href @ '')''
         else text)"

definition image_pieces :: "env \<Rightarrow> string \<Rightarrow> node \<Rightarrow> string list" where
  \<comment> \<open>what the branch \<open>name == "img"\<close> appends\<close>
  "image_pieces e base_url n =
     (let src = strip (get_or n ''src'' []);
          alt = (if strip (get_or n ''alt'' []) \<noteq> [] then strip (get_or n ''alt'' [])
                 else strip (get_or n ''title'' []))
      in if src \<noteq> [] then [''!['' @ alt @ '']('' @ absolutize e base_url src @ '')'']
         else [])"

fun walk :: "env \<Rightarrow> string \<Rightarrow> node \<Rightarrow> string list \<Rightarrow> string list"
  and walk_children :: "env \<Rightarrow> string \<Rightarrow> node list \<Rightarrow> string list \<Rightarrow> string list"
  and walk_items :: "env \<Rightarrow> string \<Rightarrow> node list \<Rightarrow> string list \<Rightarrow> string list" where
  "walk e base_url (NavigableString s) pieces = pieces @ [s]"
| "walk e base_url (Typed_string k s) pieces = pieces @ [s]"
| "walk e base_url Decomposed pieces = pieces"
| "walk e base_url (Tag nm a cs) pieces =
     (case branch_of (lower nm) of
        Skipped \<Rightarrow> pieces
      | Anchor \<Rightarrow> pieces @ [anchor_piece e base_url (Tag nm a cs)]
      | Image \<Rightarrow> pieces @ image_pieces e base_url (Tag nm a cs)
      | Listing \<Rightarrow> walk_items e base_url cs pieces @ [[nl]]
      | Code \<Rightarrow> pieces @ [''`'' @ get_text_strip [] (Tag nm a cs) @ ''`'']
      | Inline \<Rightarrow> walk_children e base_url cs pieces
      | Block_break \<Rightarrow>
          (let p1 = (if pieces \<noteq> [] \<and> \<not> endswith (last pieces) [nl] then pieces @ [[nl]]
                     else pieces);
               p2 = walk_children e base_url cs p1
           in if \<not> ends_nl p2 then p2 @ [[nl]] else p2)
      | Line_break \<Rightarrow> walk_children e base_url cs pieces @ [[nl]]
      | Default \<Rightarrow> walk_children e base_url cs pieces)"
| "walk_children e base_url [] pieces = pieces"
| "walk_children e base_url (c # cs) pieces =
     walk_children e base_url cs (walk e base_url c pieces)"
| "walk_items e base_url [] pieces = pieces"
| "walk_items e base_url (c # cs) pieces =
     (if is_tag c \<and> name_of c = ''li''
      then walk_items e base_url cs (walk e base_url c (pieces @ [nl # ''- '']))
      else walk_items e base_url cs pieces)"

definition tidy :: "string \<Rightarrow> string" where
  \<comment> \<open>the clean-up of the joined pieces: odd spaces, runs of blanks, runs of empty lines\<close>
  "tidy md0 =
     (let md = replace_char (CHR 0xA0) CHR '' '' md0;
          md = re_sub (rplus (\<lambda>c. c = CHR '' '' \<or> c = CHR 0x09)) '' '' md;
          md = re_sub (seqs [Lit [nl], rstar is_space, Lit [nl], rstar is_space,
                             rplus (\<lambda>c. c = nl)]) [nl, nl] md
      in strip md)"

definition node_to_markdown :: "env \<Rightarrow> node \<Rightarrow> string \<Rightarrow> string" where
  \<comment> \<open>returns a \<open>str\<close>: \<open>return md or ""\<close>\<close>
  "node_to_markdown e n base_url = tidy (concat (walk e base_url n []))"

section \<open>Embedded structured data\<close>

definition LD_JSON_TYPE :: string where
  "LD_JSON_TYPE = ''application/ld+json''"

definition trailing_comma_fix :: "string \<Rightarrow> string" where
  \<comment> \<open>\<open>re.sub(r",\s*]", "]", re.sub(r",\s*}", "}", content))\<close>\<close>
  "trailing_comma_fix content =
     re_sub (seqs [Lit '','', rstar is_space, Lit '']'']) '']''
       (re_sub (seqs [Lit '','', rstar is_space, Lit ''}'']) ''}'' content)"

definition script_content :: "node \<Rightarrow> string" where
  \<comment> \<open>\<open>(tag.string or tag.text or "").strip()\<close>\<close>
  "script_content t =
     strip (case string_of t of
              Some s \<Rightarrow> if s \<noteq> [] then s else get_text t
            | None \<Rightarrow> get_text t)"

definition parse_block :: "env \<Rightarrow> string \<Rightarrow> json list" where
  \<comment> \<open>the body of the loop of \<open>extract_json_ld\<close> for one script element: what it appends\<close>
  "parse_block e content =
     (if content = [] then []
      else case json_loads e content of
             Some j \<Rightarrow> [j]
           | None \<Rightarrow> (case json_loads e (trailing_comma_fix content) of
                         Some j \<Rightarrow> [j]
                       | None \<Rightarrow> []))"

definition ld_scripts :: "node \<Rightarrow> node list" where
  \<comment> \<open>\<open>soup.find_all("script", {"type": "application/ld+json"})\<close>\<close>
  "ld_scripts soup =
     find_all (\<lambda>t. name_of t = ''script'' \<and> get t ''type'' = Some LD_JSON_TYPE) soup"

definition extract_json_ld :: "env \<Rightarrow> node \<Rightarrow> json list" where
  "extract_json_ld e soup = concat (map (\<lambda>t. parse_block e (script_content t)) (ld_scripts soup))"

datatype exn = AttributeError | TypeError

definition jtruthy :: "json \<Rightarrow> bool" where
  \<comment> \<open>Python truth of a decoded JSON value\<close>
  "jtruthy j =
     (case j of JNull \<Rightarrow> False | JBool b \<Rightarrow> b | JNum i \<Rightarrow> i \<noteq> 0 | JStr s \<Rightarrow> s \<noteq> []
      | JArr xs \<Rightarrow> xs \<noteq> [] | JObj kvs \<Rightarrow> kvs \<noteq> [])"

definition jget :: "json \<Rightarrow> string \<Rightarrow> exn + json" where
  \<comment> \<open>\<open>x.get(k)\<close>: only a dict has \<open>get\<close>; a missing key gives \<open>None\<close>\<close>
  "jget j k =
     (case j of
        JObj kvs \<Rightarrow> Inr (case map_of kvs k of None \<Rightarrow> JNull | Some v \<Rightarrow> v)
      | _ \<Rightarrow> Inl AttributeError)"

definition jget_or :: "json \<Rightarrow> string \<Rightarrow> string \<Rightarrow> json \<Rightarrow> exn + json" where
  \<comment> \<open>\<open>x.get(k1) or x.get(k2) or d\<close>\<close>
  "jget_or j k1 k2 d =
     (case jget j k1 of
        Inl err \<Rightarrow> Inl err
      | Inr v1 \<Rightarrow> if jtruthy v1 then Inr v1
                  else (case jget j k2 of
                          Inl err \<Rightarrow> Inl err
                        | Inr v2 \<Rightarrow> Inr (if jtruthy v2 then v2 else d)))"

definition is_qapage :: "json \<Rightarrow> bool" where
  \<comment> \<open>\<open>str(t).lower() == "qapage"\<close>: the text of no value but a string can be that\<close>
  "is_qapage t = (case t of JStr s \<Rightarrow> lower s = ''qapage'' | _ \<Rightarrow> False)"

definition any_qapage :: "json \<Rightarrow> exn + bool" where
  \<comment> \<open>\<open>if isinstance(types, str): types = [types]\<close>, then \<open>any(... for t in types)\<close>;
      iterating a dict runs over its keys, iterating a number or a boolean raises\<close>
  "any_qapage types =
     (case types of
        JStr s \<Rightarrow> Inr (lower s = ''qapage'')
      | JArr ts \<Rightarrow> Inr (list_ex is_qapage ts)
      | JObj kvs \<Rightarrow> Inr (list_ex (\<lambda>(k, v). lower k = ''qapage'') kvs)
      | _ \<Rightarrow> Inl TypeError)"

definition HASH_M :: rx where
  \<comment> \<open>\<open>#M(\d+)\<close>, also \<open>#M\d+\<close>\<close>
  "HASH_M = seqs [Lit ''#M'', rplus is_digit]"

definition hash_m_id :: "string \<Rightarrow> string option" where
  \<comment> \<open>\<open>m = re.search(r"#M(\d+)", s)\<close>, then \<open>m.group(1)\<close>\<close>
  "hash_m_id s = map_option (drop 2) (re_search HASH_M s)"

text \<open>
  The loops of \<open>extract_json_ld_accepted_ids\<close> run inside one \<open>try\<close> per block: an
  exception ends the block and keeps the identifiers added so far. Each loop returns the
  set (a list without repetitions) and whether it was ended by an exception.
\<close>

fun scan_accepted :: "json list \<Rightarrow> string list \<Rightarrow> exn option \<times> string list" where
  \<comment> \<open>\<open>for a in accepted\<close>\<close>
  "scan_accepted [] ids = (None, ids)"
| "scan_accepted (a # as) ids =
     (case jget_or a ''url'' ''mainEntityOfPage'' (JStr []) of
        Inl err \<Rightarrow> (Some err, ids)
      | Inr url \<Rightarrow>
          (case (if jtruthy url then url else JStr []) of
             JStr s \<Rightarrow> (case hash_m_id s of
                          Some mid \<Rightarrow> scan_accepted as (List.insert mid ids)
                        | None \<Rightarrow> scan_accepted as ids)
           | _ \<Rightarrow> (Some TypeError, ids)))"

fun scan_nodes :: "json list \<Rightarrow> string list \<Rightarrow> exn option \<times> string list" where
  \<comment> \<open>\<open>for node in nodes\<close>\<close>
  "scan_nodes [] ids = (None, ids)"
| "scan_nodes (node # nodes) ids =
     (case jget_or node ''@type'' ''type'' (JArr []) of
        Inl err \<Rightarrow> (Some err, ids)
      | Inr types \<Rightarrow>
          (case any_qapage types of
             Inl err \<Rightarrow> (Some err, ids)
           | Inr False \<Rightarrow> scan_nodes nodes ids
           | Inr True \<Rightarrow>
               (case jget node ''mainEntity'' of
                  Inl err \<Rightarrow> (Some err, ids)
                | Inr m0 \<Rightarrow>
                    (let m1 = (if jtruthy m0 then m0 else JObj []);
                         main = (case m1 of JArr (x # xs) \<Rightarrow> x | _ \<Rightarrow> m1)
                     in case jget main ''acceptedAnswer'' of
                          Inl err \<Rightarrow> (Some err, ids)
                        | Inr accepted \<Rightarrow>
                            if \<not> jtruthy accepted then scan_nodes nodes ids
                            else (case scan_accepted
                                         (case accepted of JArr xs \<Rightarrow> xs | _ \<Rightarrow> [accepted]) ids of
                                    (Some err, ids') \<Rightarrow> (Some err, ids')
                                  | (None, ids') \<Rightarrow> scan_nodes nodes ids')))))"

definition scan_block :: "json \<Rightarrow> string list \<Rightarrow> string list" where
  \<comment> \<open>one turn of \<open>for block in extract_json_ld(soup)\<close>, with its \<open>try ... except: continue\<close>\<close>
  "scan_block block ids =
     (case jget block ''@graph'' of
        Inl err \<Rightarrow> ids
      | Inr g \<Rightarrow> snd (scan_nodes (case g of JArr xs \<Rightarrow> xs | _ \<Rightarrow> [block]) ids))"

definition extract_json_ld_accepted_ids :: "env \<Rightarrow> node \<Rightarrow> string list" where
  "extract_json_ld_accepted_ids e soup =
     foldl (\<lambda>ids block. scan_block block ids) [] (extract_json_ld e soup)"

section \<open>Field heuristics\<close>

text \<open>
  The exceptions that leave the extraction of a page. \<open>ValueError\<close> is raised by
  \<open>int\<close> on a text of more than 4300 digits (the interpreter's limit on the conversion
  of integer strings) and by \<open>list.remove\<close> on a missing element.
\<close>

datatype error =
    Destroyed_tag  \<comment> \<open>a \<open>Tag\<close> inside a removed part was used: the library raises on it\<close>
  | KeyError
  | ValueError

definition M_ID :: rx where
  \<comment> \<open>\<open>^M\d+$\<close>\<close>
  "M_ID = seqs [Bol, Lit ''M'', rplus is_digit, Eol]"

definition M_PREFIX :: rx where
  \<comment> \<open>\<open>M(\d+)\<close>\<close>
  "M_PREFIX = seqs [Lit ''M'', rplus is_digit]"

definition MESSAGE_NUM :: rx where
  \<comment> \<open>\<open>message-(\d+)\<close>\<close>
  "MESSAGE_NUM = seqs [Lit ''message-'', rplus is_digit]"

definition attr_search :: "string \<Rightarrow> rx \<Rightarrow> node \<Rightarrow> bool" where
  \<comment> \<open>the library's test of an attribute against a compiled pattern\<close>
  "attr_search k r n = (case get n k of None \<Rightarrow> False | Some v \<Rightarrow> matches r v)"

definition get_anchor_mid :: "node \<Rightarrow> string option" where
  "get_anchor_mid dv =
     (case (case find_first (attr_search ''id'' M_ID) dv of
              None \<Rightarrow> None
            | Some el \<Rightarrow> map_option (drop 1) (re_match M_PREFIX (get_or el ''id'' []))) of
        Some mid \<Rightarrow> Some mid
      | None \<Rightarrow>
          (case find_first (\<lambda>t. name_of t = ''a'' \<and> attr_search ''href'' HASH_M t) dv of
             None \<Rightarrow> None
           | Some a \<Rightarrow> if has_attr a ''href'' then hash_m_id (get_or a ''href'' []) else None))"

definition get_msg_id :: "node \<Rightarrow> string option" where
  "get_msg_id dv =
     (if truthy (get_anchor_mid dv) then get_anchor_mid dv
      else if has_attr dv ''data-lia-message-uid'' then get dv ''data-lia-message-uid''
      else if has_attr dv ''id'' then
        map_option (drop 8) (re_search MESSAGE_NUM (get_or dv ''id'' []))
      else None)"

definition QUESTION_CLASS_RE :: rx where
  \<comment> \<open>\<open>qanda[- ]?question|message-view-qanda-question|thread-topic|lia-message-view-question\<close>\<close>
  "QUESTION_CLASS_RE =
     alts [seqs [Lit ''qanda'', Rep (\<lambda>c. c = CHR ''-'' \<or> c = CHR '' '') 0 (Some 1),
                 Lit ''question''],
           Lit ''message-view-qanda-question'', Lit ''thread-topic'',
           Lit ''lia-message-view-question'']"

definition is_question_div :: "node \<Rightarrow> bool" where
  "is_question_div dv = matches QUESTION_CLASS_RE (lower (join '' '' (classes dv)))"

definition whole_word :: "string \<Rightarrow> rx" where
  \<comment> \<open>\<open>\bw\b\<close>, ignoring case\<close>
  "whole_word w = seqs [WordB, LitI w, WordB]"

definition ACCEPTED_HINT_TEXT :: rx where
  \<comment> \<open>\<open>\bAccepted\s+Solution\b|\bAccepted\s+Answers?\b\<close>, ignoring case\<close>
  "ACCEPTED_HINT_TEXT =
     alts [seqs [WordB, LitI ''Accepted'', rplus is_space, LitI ''Solution'', WordB],
           seqs [WordB, LitI ''Accepted'', rplus is_space, LitI ''Answer'',
                 Rep (\<lambda>c. c = CHR ''s'' \<or> c = CHR ''S'') 0 (Some 1), WordB]]"

definition ACCEPTED_CLASS_RE :: rx where
  "ACCEPTED_CLASS_RE =
     alts [whole_word ''lia-accepted-solution'', whole_word ''lia-solution-accepted'',
           whole_word ''lia-message-accepted-solution'',
           whole_word ''lia-list-row-thread-solved'',
           whole_word ''accepted'', whole_word ''solution'']"

definition MESSAGE_VIEW :: rx where
  \<comment> \<open>\<open>\bMessageView\b\<close>\<close>
  "MESSAGE_VIEW = seqs [WordB, Lit ''MessageView'', WordB]"

definition container_has_accepted_marker_for_message :: "node \<Rightarrow> bool" where
  "container_has_accepted_marker_for_message dv =
     (if matches ACCEPTED_CLASS_RE (join '' '' (classes dv)) then True
      else case find_first (\<lambda>t. name_of t = ''div'' \<and> class_search MESSAGE_VIEW t) dv of
             None \<Rightarrow> False
           | Some mv \<Rightarrow>
               if matches ACCEPTED_CLASS_RE (join '' '' (classes mv)) then True
               else list_ex (matches ACCEPTED_HINT_TEXT) (string_descendants mv))"

definition BODY_CLASS :: rx where
  \<comment> \<open>\<open>(lia-message-body|lia-message-body-content|lia-article-body)\<close>\<close>
  "BODY_CLASS =
     alts [Lit ''lia-message-body'', Lit ''lia-message-body-content'', Lit ''lia-article-body'']"

definition is_bad :: "node \<Rightarrow> bool" where
  \<comment> \<open>an element that \<open>find_all(["script", "style", "noscript"])\<close> finds\<close>
  "is_bad n = (is_tag n \<and> name_of n \<in> set [''script'', ''style'', ''noscript''])"

fun decompose_bad :: "node \<Rightarrow> node"
  and decompose_bad_list :: "node list \<Rightarrow> node list" where
  \<comment> \<open>\<open>for bad in body_div.find_all([...]): bad.decompose()\<close>\<close>
  "decompose_bad (Tag nm a cs) = Tag nm a (decompose_bad_list cs)"
| "decompose_bad (NavigableString s) = NavigableString s"
| "decompose_bad (Typed_string k s) = Typed_string k s"
| "decompose_bad Decomposed = Decomposed"
| "decompose_bad_list [] = []"
| "decompose_bad_list (c # cs) =
     (if is_bad c then Decomposed else decompose_bad c) # decompose_bad_list cs"

definition extract_body_markdown :: "env \<Rightarrow> node \<Rightarrow> string \<Rightarrow> string option \<times> node" where
  \<comment> \<open>returns the text and the container as the removal of the scripts leaves it\<close>
  "extract_body_markdown e container page_url =
     (case find_path (\<lambda>t. name_of t = ''div'' \<and> class_search BODY_CLASS t) container of
        None \<Rightarrow> (None, container)
      | Some p \<Rightarrow>
          (case at container p of
             None \<Rightarrow> (None, container)
           | Some body_div \<Rightarrow>
               (let cleaned = decompose_bad body_div;
                    md = node_to_markdown e cleaned page_url
                in (if md = [] then None else Some md, put container p cleaned))))"

definition DIGITS :: rx where
  \<comment> \<open>\<open>\d+\<close>\<close>
  "DIGITS = rplus is_digit"

definition int_of_digits :: "string \<Rightarrow> int" where
  \<comment> \<open>the value of a string of digits\<close>
  "int_of_digits s = foldl (\<lambda>acc c. 10 * acc + (int (of_char c) - 48)) 0 s"

definition MAX_STR_DIGITS :: int where
  \<comment> \<open>\<open>sys.get_int_max_str_digits()\<close>, as the interpreter starts\<close>
  "MAX_STR_DIGITS = 4300"

definition py_int :: "string \<Rightarrow> error + int" where
  \<comment> \<open>\<open>int(s)\<close> on a string of digits: raises when there are more than the limit\<close>
  "py_int s = (if MAX_STR_DIGITS < int (length s) then Inl ValueError else Inr (int_of_digits s))"

definition first_number :: "string \<Rightarrow> error + int option" where
  \<comment> \<open>\<open>m = re.search(r"\d+", s)\<close>, then \<open>int(m.group(0))\<close> \<open>if m\<close>\<close>
  "first_number s =
     (case re_search DIGITS s of
        None \<Rightarrow> Inr None
      | Some d \<Rightarrow> (case py_int d of Inl err \<Rightarrow> Inl err | Inr v \<Rightarrow> Inr (Some v)))"

fun first_some :: "('a \<Rightarrow> 'b option) \<Rightarrow> 'a list \<Rightarrow> 'b option" where
  \<comment> \<open>a loop that returns at the first element giving a value\<close>
  "first_some f [] = None"
| "first_some f (x # xs) = (case f x of Some v \<Rightarrow> Some v | None \<Rightarrow> first_some f xs)"

fun first_found :: "('a \<Rightarrow> error + 'b option) \<Rightarrow> 'a list \<Rightarrow> error + 'b option" where
  \<comment> \<open>a loop that returns at the first element giving a value, and that an exception ends\<close>
  "first_found f [] = Inr None"
| "first_found f (x # xs) =
     (case f x of
        Inl err \<Rightarrow> Inl err
      | Inr (Some v) \<Rightarrow> Inr (Some v)
      | Inr None \<Rightarrow> first_found f xs)"

definition KUDO_LABEL :: rx where
  \<comment> \<open>\<open>kudo|like|vote\<close>, ignoring case\<close>
  "KUDO_LABEL = alts [LitI ''kudo'', LitI ''like'', LitI ''vote'']"

definition KUDO_CLASS :: rx where
  \<comment> \<open>\<open>kudo|likes?|vote|rating|count\<close>, ignoring case\<close>
  "KUDO_CLASS =
     alts [LitI ''kudo'',
           seqs [LitI ''like'', Rep (\<lambda>c. c = CHR ''s'' \<or> c = CHR ''S'') 0 (Some 1)],
           LitI ''vote'', LitI ''rating'', LitI ''count'']"

text \<open>
  The three stages of \<open>extract_upvotes\<close>. In the second, \<open>el.attrs.items()\<close> is
  filtered by \<open>isinstance(val, str)\<close>: the values that are lists belong to \<open>class\<close>,
  \<open>rel\<close> and a few other attributes, none of whose names passes the test on the name.
\<close>

definition labelled_upvotes :: "node \<Rightarrow> error + int option" where
  \<comment> \<open>\<open>for el in container.find_all(attrs={"aria-label": True})\<close>\<close>
  "labelled_upvotes container =
     first_found
       (\<lambda>el. if matches KUDO_LABEL (get_or el ''aria-label'' [])
              then first_number (get_or el ''aria-label'' []) else Inr None)
       (find_all (\<lambda>t. has_attr t ''aria-label'') container)"

definition counted_upvotes :: "node \<Rightarrow> error + int option" where
  \<comment> \<open>\<open>for el in container.find_all(True, class_=...)\<close>\<close>
  "counted_upvotes container =
     first_found
       (\<lambda>el. case first_number (strip (get_text_sep '' '' el)) of
                Inl err \<Rightarrow> Inl err
              | Inr (Some v) \<Rightarrow> Inr (Some v)
              | Inr None \<Rightarrow>
                  first_found
                    (\<lambda>(attr, val).
                       if startswith attr ''data-''
                          \<or> attr \<in> set [''data-count'', ''data-kudos-count'']
                       then first_number val else Inr None)
                    (attrs_of el))
       (find_all (class_search KUDO_CLASS) container)"

definition kudos_upvotes :: "node \<Rightarrow> error + int option" where
  \<comment> \<open>\<open>el = container.select_one('[id*="kudos"], [class*="kudos"]')\<close>\<close>
  "kudos_upvotes container =
     (case find_first (\<lambda>t. css_attr_contains ''id'' ''kudos'' t
                            \<or> css_attr_contains ''class'' ''kudos'' t) container of
        None \<Rightarrow> Inr None
      | Some el \<Rightarrow> first_number (get_text_sep '' '' el))"

definition extract_upvotes :: "node \<Rightarrow> error + int option" where
  "extract_upvotes container =
     (case labelled_upvotes container of
        Inl err \<Rightarrow> Inl err
      | Inr (Some v) \<Rightarrow> Inr (Some v)
      | Inr None \<Rightarrow>
          (case counted_upvotes container of
             Inl err \<Rightarrow> Inl err
           | Inr (Some v) \<Rightarrow> Inr (Some v)
           | Inr None \<Rightarrow> kudos_upvotes container))"

definition AUTHOR_CLASS :: rx where
  \<comment> \<open>\<open>(lia-user-name|lia-component-author-name)\<close>\<close>
  "AUTHOR_CLASS = alts [Lit ''lia-user-name'', Lit ''lia-component-author-name'']"

definition extract_author :: "node \<Rightarrow> string option" where
  \<comment> \<open>the author lines of \<open>build_answer_from_div\<close>\<close>
  "extract_author dv =
     (case find_first (\<lambda>t. name_of t \<in> set [''a'', ''span''] \<and> class_search AUTHOR_CLASS t) dv of
        None \<Rightarrow> None
      | Some auth_tag \<Rightarrow> Some (normalize_whitespace (get_text auth_tag)))"

section \<open>Answers\<close>

record answer =
  message_id :: "string option"
  message_url :: "string option"
  author :: "string option"
  created_at :: "string option"
  text_md :: "string option"
  is_accepted :: bool
  upvotes :: "int option"

text \<open>
  \<open>build_answer_from_div\<close> receives the page and the path of the container in it, and
  returns the answer and the page as it is afterwards: the body extraction removes the
  scripts of the body from the page itself, and the fields read after it (timestamp,
  upvotes, accepted marker) see the container without them. The exception of
  \<open>extract_upvotes\<close> leaves the function.
\<close>

definition build_answer_from_div ::
  "env \<Rightarrow> node \<Rightarrow> path \<Rightarrow> node \<Rightarrow> string \<Rightarrow> error + (answer \<times> node)" where
  "build_answer_from_div e soup p dv page_url =
     (let msg_id = get_msg_id dv;
          msg_url = (case msg_id of
                       Some m \<Rightarrow> if m \<noteq> [] then Some (page_url @ ''#M'' @ m) else None
                     | None \<Rightarrow> None);
          auth = extract_author dv;
          (text, dv') = extract_body_markdown e dv page_url;
          soup' = put soup p dv'
      in case extract_upvotes dv' of
           Inl err \<Rightarrow> Inl err
         | Inr votes \<Rightarrow>
             Inr (\<lparr> message_id = msg_id,
                     message_url = msg_url,
                     author = auth,
                     created_at = parse_datetime_candidate e soup' p,
                     text_md = text,
                     is_accepted = container_has_accepted_marker_for_message dv',
                     upvotes = votes \<rparr>,
                  soup'))"

section \<open>Question and answers of a Q&A page\<close>

definition css_message :: "node \<Rightarrow> bool" where
  \<comment> \<open>\<open>div[id^="message-"], div[data-lia-message-uid]\<close>\<close>
  "css_message n =
     (css_name ''div'' n \<and> (css_attr_prefix ''id'' ''message-'' n \<or> has_attr n ''data-lia-message-uid''))"

definition css_accepted_wrapper :: "node \<Rightarrow> bool" where
  "css_accepted_wrapper n =
     (css_name ''div'' n \<and>
      ((css_class ''ComponentToggler'' n \<and> css_class ''lia-component-solutions-with-toggle'' n)
       \<or> css_class ''lia-accepted-solution'' n \<or> css_class ''lia-message-accepted-solution'' n
       \<or> css_class ''lia-solution-accepted'' n \<or> css_class ''lia-list-row-thread-solved'' n))"

definition append_new :: "(path \<times> node) list \<Rightarrow> path \<Rightarrow> (path \<times> node) list \<Rightarrow> (path \<times> node) list" where
  \<comment> \<open>\<open>for m in inner_msgs: if m not in containers: containers.append(m)\<close>; the library
      compares two elements by name, attributes and content\<close>
  "append_new containers w inner_msgs =
     foldl (\<lambda>cs (p, m). if m \<notin> set (map snd cs) then cs @ [(w @ p, m)] else cs)
           containers inner_msgs"

definition candidate_containers :: "node \<Rightarrow> path list" where
  \<comment> \<open>the list \<open>containers\<close> of \<open>extract_flat_qna\<close>, as paths into the page\<close>
  "candidate_containers soup =
     map fst (foldl (\<lambda>containers (w, wrap). append_new containers w (select css_message wrap))
                    (select css_message soup) (select css_accepted_wrapper soup))"

definition merge_into :: "answer \<Rightarrow> answer \<Rightarrow> answer" where
  \<comment> \<open>the updates of \<open>base\<close> from \<open>ans\<close> when the identifier is already stored\<close>
  "merge_into base ans =
     base \<lparr> is_accepted := is_accepted base \<or> is_accepted ans,
            text_md := (if \<not> truthy (text_md base) \<and> truthy (text_md ans)
                        then text_md ans else text_md base),
            created_at := (if \<not> truthy (created_at base) \<and> truthy (created_at ans)
                           then created_at ans else created_at base),
            upvotes := (if upvotes base = None \<and> upvotes ans \<noteq> None
                        then upvotes ans else upvotes base) \<rparr>"

type_synonym dedup_state = "node \<times> (string \<rightharpoonup> answer) \<times> string list"

fun dedup_loop :: "env \<Rightarrow> string \<Rightarrow> path list \<Rightarrow> dedup_state \<Rightarrow> error + dedup_state" where
  \<comment> \<open>the first \<open>for div in containers\<close>; the state is the page, \<open>answers_by_id\<close>
      and \<open>order\<close>\<close>
  "dedup_loop e page_url [] st = Inr st"
| "dedup_loop e page_url (p # ps) (soup, answers_by_id, order) =
     (case at soup p of
        None \<Rightarrow> Inl Destroyed_tag
      | Some dv \<Rightarrow>
          (let mid = get_msg_id dv
           in if \<not> truthy mid then dedup_loop e page_url ps (soup, answers_by_id, order)
              else (case mid of
                      None \<Rightarrow> dedup_loop e page_url ps (soup, answers_by_id, order)
                    | Some m \<Rightarrow>
                        (case build_answer_from_div e soup p dv page_url of
                           Inl err \<Rightarrow> Inl err
                         | Inr (ans, soup') \<Rightarrow>
                             (case answers_by_id m of
                                Some base \<Rightarrow>
                                  dedup_loop e page_url ps
                                    (soup', answers_by_id(m \<mapsto> merge_into base ans), order)
                              | None \<Rightarrow>
                                  dedup_loop e page_url ps
                                    (soup', answers_by_id(m \<mapsto> ans), order @ [m]))))))"

fun question_loop :: "node \<Rightarrow> path list \<Rightarrow> error + string option" where
  \<comment> \<open>the second \<open>for div in containers\<close>: \<open>question_id\<close> when the loop ends\<close>
  "question_loop soup [] = Inr None"
| "question_loop soup (p # ps) =
     (case at soup p of
        None \<Rightarrow> Inl Destroyed_tag
      | Some dv \<Rightarrow> if is_question_div dv then Inr (get_msg_id dv) else question_loop soup ps)"

definition fallback_question :: "string option \<Rightarrow> string list \<Rightarrow> string option" where
  \<comment> \<open>\<open>if question_id is None and order: question_id = order[0]\<close>\<close>
  "fallback_question question_id order =
     (case question_id of
        None \<Rightarrow> (case order of [] \<Rightarrow> None | m # _ \<Rightarrow> Some m)
      | Some q \<Rightarrow> Some q)"

fun lookup_all :: "(string \<rightharpoonup> answer) \<Rightarrow> string list \<Rightarrow> error + answer list" where
  \<comment> \<open>\<open>[answers_by_id[mid] for mid in order]\<close>\<close>
  "lookup_all answers_by_id [] = Inr []"
| "lookup_all answers_by_id (mid # mids) =
     (case answers_by_id mid of
        None \<Rightarrow> Inl KeyError
      | Some a \<Rightarrow> (case lookup_all answers_by_id mids of
                     Inl err \<Rightarrow> Inl err
                   | Inr as \<Rightarrow> Inr (a # as)))"

definition mark_accepted :: "string list \<Rightarrow> (string \<rightharpoonup> answer) \<Rightarrow> (string \<rightharpoonup> answer)" where
  \<comment> \<open>\<open>for mid in ids: if mid in answers_by_id: answers_by_id[mid].is_accepted = True\<close>\<close>
  "mark_accepted ids answers_by_id =
     foldl (\<lambda>m mid. case m mid of None \<Rightarrow> m | Some a \<Rightarrow> m(mid \<mapsto> a\<lparr>is_accepted := True\<rparr>))
           answers_by_id ids"

definition promote_question ::
  "string option \<Rightarrow> (string \<rightharpoonup> answer) \<Rightarrow> string list
   \<Rightarrow> error + (string option \<times> int option \<times> (string \<rightharpoonup> answer) \<times> string list)" where
  \<comment> \<open>\<open>if question_id and question_id in answers_by_id\<close>: \<open>pop\<close>, \<open>order.remove\<close> (which
      raises when the element is missing) and the two question fields\<close>
  "promote_question question_id answers_by_id order =
     (case question_id of
        None \<Rightarrow> Inr (None, None, answers_by_id, order)
      | Some q \<Rightarrow>
          if q = [] then Inr (None, None, answers_by_id, order)
          else (case answers_by_id q of
                  None \<Rightarrow> Inr (None, None, answers_by_id, order)
                | Some q_ans \<Rightarrow>
                    if q \<in> set order
                    then Inr (text_md q_ans, upvotes q_ans, answers_by_id(q := None),
                              remove1 q order)
                    else Inl ValueError))"

type_synonym flat_qna = "string option \<times> int option \<times> answer list \<times> nat"

text \<open>
  The list \<open>answers\<close> holds the \<open>Answer\<close> objects that \<open>answers_by_id\<close> holds, so the
  flags set by the last loop show through it: the model reads the list from the dictionary
  after that loop.
\<close>

definition extract_flat_qna :: "env \<Rightarrow> node \<Rightarrow> string \<Rightarrow> error + flat_qna" where
  "extract_flat_qna e soup page_url =
     (let containers = candidate_containers soup
      in if containers = [] then Inr (None, None, [], 0)
         else case dedup_loop e page_url containers (soup, Map.empty, []) of
                Inl err \<Rightarrow> Inl err
              | Inr (soup1, answers_by_id, order) \<Rightarrow>
                  (case question_loop soup1 containers of
                     Inl err \<Rightarrow> Inl err
                   | Inr q0 \<Rightarrow>
                       (case promote_question (fallback_question q0 order) answers_by_id order of
                          Inl err \<Rightarrow> Inl err
                        | Inr (question_text, question_upvotes, by_id, order') \<Rightarrow>
                            (case lookup_all
                                    (mark_accepted (extract_json_ld_accepted_ids e soup1) by_id)
                                    order' of
                               Inl err \<Rightarrow> Inl err
                             | Inr answers \<Rightarrow>
                                 Inr (question_text, question_upvotes, answers,
                                      length answers)))))"

section \<open>Page-level fields\<close>

definition meta_content :: "string \<Rightarrow> string \<Rightarrow> node \<Rightarrow> string option" where
  \<comment> \<open>\<open>tag = soup.find("meta", {k: v})\<close>, then \<open>tag["content"]\<close> normalised
      \<open>if tag and tag.get("content")\<close>\<close>
  "meta_content k v soup =
     (case find_first (\<lambda>t. name_of t = ''meta'' \<and> get t k = Some v) soup of
        None \<Rightarrow> None
      | Some tag \<Rightarrow> if truthy (get tag ''content'')
                    then map_option normalize_whitespace (get tag ''content'') else None)"

definition common_title :: "node \<Rightarrow> string option" where
  "common_title soup =
     (let title = (case find_first (\<lambda>t. name_of t = ''title'') soup of
                     None \<Rightarrow> None
                   | Some t \<Rightarrow> if truthy (string_of t)
                               then map_option normalize_whitespace (string_of t) else None)
      in case meta_content ''property'' ''og:title'' soup of
           Some ogt \<Rightarrow> Some ogt
         | None \<Rightarrow> title)"

definition common_author :: "node \<Rightarrow> string option" where
  "common_author soup =
     first_some (\<lambda>(k, v). meta_content k v soup)
       [(''name'', ''author''), (''property'', ''article:author'')]"

definition common_published :: "node \<Rightarrow> string option" where
  "common_published soup =
     first_some (\<lambda>prop. meta_content ''property'' prop soup)
       [''article:published_time'', ''og:article:published_time'']"

definition common_updated :: "node \<Rightarrow> string option" where
  "common_updated soup =
     first_some (\<lambda>prop. meta_content ''property'' prop soup)
       [''article:modified_time'', ''og:updated_time'']"

definition css_classic_tag :: "node \<Rightarrow> bool" where
  \<comment> \<open>\<open>a[rel~="tag"], a[href*="/t5/tag/"], a[class*="Tag"]\<close>\<close>
  "css_classic_tag n =
     (css_name ''a'' n \<and> (css_attr_word ''rel'' ''tag'' n \<or> css_attr_contains ''href'' ''/t5/tag/'' n
                           \<or> css_attr_contains ''class'' ''Tag'' n))"

definition css_managed_tag :: "(node \<Rightarrow> bool) list" where
  \<comment> \<open>\<open>div.custom-view-associated-products li.lia-link-navigation a\<close>\<close>
  "css_managed_tag =
     [\<lambda>n. css_name ''div'' n \<and> css_class ''custom-view-associated-products'' n,
      \<lambda>n. css_name ''li'' n \<and> css_class ''lia-link-navigation'' n,
      css_name ''a'']"

definition tag_candidates :: "node \<Rightarrow> string option list" where
  \<comment> \<open>the values pushed by the two loops of \<open>extract_common_fields\<close>, in order\<close>
  "tag_candidates soup =
     map (\<lambda>(p, t). Some (normalize_whitespace (get_text t))) (select css_classic_tag soup)
     @ map (\<lambda>(p, a). Some (normalize_whitespace (get_text a)))
           (select_nested [css_managed_tag] soup)"

definition common_tags :: "node \<Rightarrow> string list" where
  "common_tags soup = push_all [] (tag_candidates soup)"

definition extract_board_from_url :: "env \<Rightarrow> string \<Rightarrow> string option" where
  "extract_board_from_url e url =
     (case split_on CHR ''/'' (strip_chars CHR ''/'' (url_path e url)) of
        p0 # slug # rest \<Rightarrow>
          if startswith slug ''human-capital-management-q-a'' then Some ''hcm-questions''
          else None
      | _ \<Rightarrow> None)"

definition detect_content_type :: "env \<Rightarrow> string \<Rightarrow> string" where
  "detect_content_type e parsed_url =
     (let path = lower (url_path e parsed_url)
      in if contains path ''/qaq-p/'' \<or> contains path ''/qa-p/'' then ''qna''
         else if contains path ''/blogs/'' \<or> contains path ''/blog/'' then ''blog''
         else ''other'')"

section \<open>Records of a page\<close>

record content_item =
  url :: string
  lastmod_from_sitemap :: "string option"
  content_type :: string
  title :: "string option"
  page_author :: "string option"
  published_at :: "string option"
  updated_at :: "string option"
  board :: "string option"
  tags :: "string list"
  question_text :: "string option"
  question_upvotes :: "int option"
  answers :: "answer list"
  reply_count :: "int option"

definition parse_qna_page :: "env \<Rightarrow> string \<Rightarrow> node \<Rightarrow> error + content_item" where
  \<comment> \<open>on the parsed page \<open>soup = BeautifulSoup(html, "lxml")\<close>\<close>
  "parse_qna_page e page_url soup =
     (case extract_flat_qna e soup page_url of
        Inl err \<Rightarrow> Inl err
      | Inr (q_text, q_upvotes, answer_list, count) \<Rightarrow>
          Inr \<lparr> url = page_url,
                lastmod_from_sitemap = None,
                content_type = ''qna'',
                title = common_title soup,
                page_author = common_author soup,
                published_at = common_published soup,
                updated_at = common_updated soup,
                board = extract_board_from_url e page_url,
                tags = common_tags soup,
                question_text = q_text,
                question_upvotes = q_upvotes,
                answers = answer_list,
                reply_count = Some (int count) \<rparr>)"

definition css_comment :: "(node \<Rightarrow> bool) list list" where
  \<comment> \<open>\<open>div[class*="comment"] div[id^="message-"], div[id^="message-"].lia-message-comment\<close>\<close>
  "css_comment =
     [[\<lambda>n. css_name ''div'' n \<and> css_attr_contains ''class'' ''comment'' n,
       \<lambda>n. css_name ''div'' n \<and> css_attr_prefix ''id'' ''message-'' n],
      [\<lambda>n. css_name ''div'' n \<and> css_attr_prefix ''id'' ''message-'' n
            \<and> css_class ''lia-message-comment'' n]]"

type_synonym comment_state = "node \<times> string list \<times> answer list"

fun comment_loop :: "env \<Rightarrow> string \<Rightarrow> path list \<Rightarrow> comment_state \<Rightarrow> error + comment_state" where
  \<comment> \<open>\<open>for div in comment_containers\<close>; the state is the page, \<open>seen\<close> and \<open>answers\<close>\<close>
  "comment_loop e page_url [] st = Inr st"
| "comment_loop e page_url (p # ps) (soup, seen, acc) =
     (case at soup p of
        None \<Rightarrow> Inl Destroyed_tag
      | Some dv \<Rightarrow>
          (let mid = get_msg_id dv;
               known = (case mid of Some m \<Rightarrow> m \<noteq> [] \<and> m \<in> set seen | None \<Rightarrow> False)
           in if known then comment_loop e page_url ps (soup, seen, acc)
              else (let seen' = (case mid of
                                   Some m \<Rightarrow> if m \<noteq> [] then List.insert m seen else seen
                                 | None \<Rightarrow> seen)
                    in case build_answer_from_div e soup p dv page_url of
                         Inl err \<Rightarrow> Inl err
                       | Inr (ans, soup') \<Rightarrow>
                           comment_loop e page_url ps
                             (soup', seen', acc @ [ans\<lparr>is_accepted := False\<rparr>]))))"

definition blog_article :: "node \<Rightarrow> node option" where
  \<comment> \<open>\<open>soup.find("div", {"class": ...}) or soup.find("article")\<close>\<close>
  "blog_article soup =
     (case find_first (\<lambda>t. name_of t = ''div'' \<and> class_search BODY_CLASS t) soup of
        Some a \<Rightarrow> Some a
      | None \<Rightarrow> find_first (\<lambda>t. name_of t = ''article'') soup)"

definition parse_blog_page :: "env \<Rightarrow> string \<Rightarrow> node \<Rightarrow> error + content_item" where
  "parse_blog_page e page_url soup =
     (let q_text = (case blog_article soup of
                      None \<Rightarrow> None
                    | Some article \<Rightarrow> Some (node_to_markdown e article page_url))
      in case comment_loop e page_url (map fst (select_nested css_comment soup)) (soup, [], []) of
           Inl err \<Rightarrow> Inl err
         | Inr (soup1, seen, answer_list) \<Rightarrow>
             Inr \<lparr> url = page_url,
                   lastmod_from_sitemap = None,
                   content_type = ''blog'',
                   title = common_title soup,
                   page_author = common_author soup,
                   published_at = common_published soup,
                   updated_at = common_updated soup,
                   board = None,
                   tags = common_tags soup,
                   question_text = q_text,
                   question_upvotes = None,
                   answers = answer_list,
                   reply_count = Some (int (length answer_list)) \<rparr>)"

section \<open>Notions used to state the properties\<close>

text \<open>
  \<open>first_by f xs\<close> keeps, of the elements with the same value of \<open>f\<close>, the one met first,
  in the order in which they are met.
\<close>

function first_by :: "('a \<Rightarrow> 'b) \<Rightarrow> 'a list \<Rightarrow> 'a list" where
  "first_by f [] = []"
| "first_by f (x # xs) = x # first_by f (filter (\<lambda>y. f y \<noteq> f x) xs)"
  by pat_completeness auto
termination
  by (relation "measure (\<lambda>(f, xs). length xs)") (auto simp: less_Suc_eq_le)

definition cleaned :: "string option list \<Rightarrow> string list" where
  \<comment> \<open>the candidates that are not blank, stripped\<close>
  "cleaned vals = filter (\<lambda>s. s \<noteq> []) (map strip (List.map_filter id vals))"

text \<open>
  \<open>built_answers\<close> follows the first loop of \<open>extract_flat_qna\<close> and lists, in the order
  of the candidates, the identifier and the answer built for each container that has an
  identifier, together with the page as the loop leaves it.
\<close>

type_synonym trace = "(string \<times> answer) list"

fun built_answers :: "env \<Rightarrow> string \<Rightarrow> path list \<Rightarrow> node \<Rightarrow> error + (trace \<times> node)" where
  "built_answers e page_url [] soup = Inr ([], soup)"
| "built_answers e page_url (p # ps) soup =
     (case at soup p of
        None \<Rightarrow> Inl Destroyed_tag
      | Some dv \<Rightarrow>
          (case get_msg_id dv of
             None \<Rightarrow> built_answers e page_url ps soup
           | Some m \<Rightarrow>
               if m = [] then built_answers e page_url ps soup
               else (case build_answer_from_div e soup p dv page_url of
                       Inl err \<Rightarrow> Inl err
                     | Inr (ans, soup') \<Rightarrow>
                         (case built_answers e page_url ps soup' of
                            Inl err \<Rightarrow> Inl err
                          | Inr (tr, soup1) \<Rightarrow> Inr ((m, ans) # tr, soup1)))))"

definition store :: "(string \<rightharpoonup> answer) \<times> string list \<Rightarrow> string \<times> answer
                     \<Rightarrow> (string \<rightharpoonup> answer) \<times> string list" where
  \<comment> \<open>what the loop does to \<open>answers_by_id\<close> and \<open>order\<close> with one built answer\<close>
  "store st entry =
     (case st of (answers_by_id, order) \<Rightarrow>
        (case entry of (m, ans) \<Rightarrow>
           (case answers_by_id m of
              Some base \<Rightarrow> (answers_by_id(m \<mapsto> merge_into base ans), order)
            | None \<Rightarrow> (answers_by_id(m \<mapsto> ans), order @ [m]))))"

definition answers_for :: "string \<Rightarrow> trace \<Rightarrow> answer list" where
  \<comment> \<open>the answers built for the containers with this identifier, in candidate order\<close>
  "answers_for m tr = map snd (filter (\<lambda>(k, a). k = m) tr)"

fun first_truthy :: "string option list \<Rightarrow> string option" where
  \<comment> \<open>the first value that is not empty; the first value when all are empty\<close>
  "first_truthy [] = None"
| "first_truthy (v # vs) =
     (if truthy v then v else case find truthy vs of Some w \<Rightarrow> w | None \<Rightarrow> v)"

definition merged :: "trace \<Rightarrow> string \<Rightarrow> answer option" where
  \<comment> \<open>the answers of one identifier merged into the first of them\<close>
  "merged tr m = (case answers_for m tr of [] \<Rightarrow> None | a # as \<Rightarrow> Some (foldl merge_into a as))"

definition ids_in_order :: "trace \<Rightarrow> string list" where
  \<comment> \<open>the distinct identifiers in the order of their first appearance\<close>
  "ids_in_order tr = first_by (\<lambda>m. m) (map fst tr)"

definition flagged :: "string list \<Rightarrow> string \<Rightarrow> answer \<Rightarrow> answer" where
  \<comment> \<open>the answer after the loop over the accepted identifiers of the structured data\<close>
  "flagged ids m a = (if m \<in> set ids then a\<lparr>is_accepted := True\<rparr> else a)"

section \<open>Sample pages\<close>

definition sample_tags :: "string option list" where
  "sample_tags = [Some ''SAP HANA'', None, Some '' sap hana '', Some ''ABAP'', Some ''   '',
                  Some ''abap'', Some ''Sap Hana'']"

definition sample_url :: string where
  "sample_url = ''https://community.sap.com/t5/q-a/x/qaq-p/1''"

definition sample_ld :: string where
  \<open>sample_ld = ''{"@type": "QAPage", "mainEntity": {"acceptedAnswer": {"url": "https://community.sap.com/t5/q-a/x/qaq-p/1#M55"}}}''\<close>

definition answer_ld :: string where
  \<open>answer_ld = ''{"@type": "QAPage", "mainEntity": {"acceptedAnswer": {"url": "#M2"}}}''\<close>

definition sample_ld_json :: json where
  \<comment> \<open>what \<open>json.loads\<close> returns for \<open>sample_ld\<close>\<close>
  "sample_ld_json =
     JObj [(''@type'', JStr ''QAPage''),
           (''mainEntity'',
            JObj [(''acceptedAnswer'', JObj [(''url'', JStr (sample_url @ ''#M55''))])])]"

definition answer_ld_json :: json where
  \<comment> \<open>what \<open>json.loads\<close> returns for \<open>answer_ld\<close>\<close>
  "answer_ld_json =
     JObj [(''@type'', JStr ''QAPage''),
           (''mainEntity'', JObj [(''acceptedAnswer'', JObj [(''url'', JStr ''#M2'')])])]"

text \<open>
  The library functions on the inputs of the sample pages: \<open>json.loads\<close> decodes
  \<open>sample_ld\<close> and \<open>answer_ld\<close> and raises on the other texts that occur; \<open>urljoin\<close> with a base on
  \<open>community.sap.com\<close> and a reference that is an absolute path; the path of such a URL;
  and the timestamp of a container whose only date information is the \<open>datetime\<close>
  attribute of a \<open>time\<close> element holding a full ISO 8601 instant.
\<close>

definition sample_env :: env where
  "sample_env =
     \<lparr> json_loads =
         (\<lambda>s. if s = sample_ld then Some sample_ld_json
              else if s = answer_ld then Some answer_ld_json
              else None),
       urljoin = (\<lambda>base href. if startswith href ''/''
                               then Some (''https://community.sap.com'' @ href) else Some href),
       url_path = (\<lambda>u. drop (length ''https://community.sap.com'') u),
       parse_datetime_candidate =
         (\<lambda>soup p. case at soup p of
                      None \<Rightarrow> None
                    | Some dv \<Rightarrow> (case find_first (\<lambda>t. name_of t = ''time'') dv of
                                   None \<Rightarrow> None
                                 | Some t \<Rightarrow> get t ''datetime'')) \<rparr>"

definition message_body :: "node list \<Rightarrow> node" where
  "message_body cs = Tag ''div'' [(''class'', ''lia-message-body'')] cs"

definition para :: "string \<Rightarrow> node" where
  "para s = Tag ''p'' [] [NavigableString s]"

definition ld_script :: "string \<Rightarrow> node" where
  "ld_script s = Tag ''script'' [(''type'', ''application/ld+json'')] [Typed_string Script s]"

definition html_page :: "node list \<Rightarrow> node list \<Rightarrow> node" where
  "html_page hs bs = Tag ''[document]'' [] [Tag ''html'' [] [Tag ''head'' [] hs, Tag ''body'' [] bs]]"

text \<open>
  A Q&A page: a marked question, two containers with the identifier 55 (the first with an
  empty body and a timestamp, the second with text and upvotes, neither marked as accepted),
  a container 77 marked as accepted, and structured data naming \<open>#M55\<close>.
\<close>

definition silent_container :: node where
  "silent_container =
     Tag ''div'' [(''id'', ''message-55'')]
       [Tag ''time'' [(''datetime'', ''2023-05-10T14:22:00Z'')] [], message_body []]"

definition sample_page :: node where
  "sample_page =
     html_page
       [Tag ''title'' [] [NavigableString ''How to configure X''], ld_script sample_ld]
       [Tag ''a'' [(''rel'', ''tag'')] [NavigableString ''SAP HANA''],
        Tag ''a'' [(''rel'', ''tag'')] [NavigableString '' sap hana ''],
        Tag ''div'' [(''id'', ''message-101''), (''class'', ''lia-message-view-question'')]
          [message_body [para ''How do I configure X?'']],
        silent_container,
        Tag ''div'' [(''id'', ''message-55'')]
          [message_body [para ''Use config Y.''],
           Tag ''span'' [(''class'', ''kudos-count'')] [NavigableString ''3'']],
        Tag ''div'' [(''id'', ''message-77''), (''class'', ''lia-accepted-solution'')]
          [message_body [para ''See the guide.'']]]"

definition sample_containers :: "path list" where
  "sample_containers = [[0, 1, 2], [0, 1, 3], [0, 1, 4], [0, 1, 5]]"

definition sample_answer :: "string \<Rightarrow> string option \<Rightarrow> string option \<Rightarrow> bool \<Rightarrow> int option \<Rightarrow> answer" where
  "sample_answer m created text accepted votes =
     \<lparr> message_id = Some m, message_url = Some (sample_url @ ''#M'' @ m), author = None,
       created_at = created, text_md = text, is_accepted = accepted, upvotes = votes \<rparr>"

definition sample_trace :: trace where
  "sample_trace =
     [(''101'', sample_answer ''101'' None (Some ''How do I configure X?'') False None),
      (''55'', sample_answer ''55'' (Some ''2023-05-10T14:22:00Z'') None False None),
      (''55'', sample_answer ''55'' None (Some ''Use config Y.'') False (Some 3)),
      (''77'', sample_answer ''77'' None (Some ''See the guide.'') True None)]"

definition sample_answers :: "answer list" where
  "sample_answers =
     [sample_answer ''55'' (Some ''2023-05-10T14:22:00Z'') (Some ''Use config Y.'') True (Some 3),
      sample_answer ''77'' None (Some ''See the guide.'') True None]"

text \<open>
  A Q&A page whose structured data sits inside the body of the second message.
\<close>

definition ld_in_body_page :: node where
  "ld_in_body_page =
     html_page
       [Tag ''title'' [] [NavigableString ''Q'']]
       [Tag ''div'' [(''id'', ''message-1''), (''class'', ''lia-message-view-question'')]
          [message_body [para ''Q?'']],
        Tag ''div'' [(''id'', ''message-2'')]
          [message_body [ld_script answer_ld, para ''Answer.'']]]"

definition ld_in_body_answer :: answer where
  "ld_in_body_answer = sample_answer ''2'' None (Some ''Answer.'') False None"

text \<open>
  A blog page: an article body without text, and under a comment list one message
  container whose \<open>id\<close> has no number.
\<close>

definition blog_url :: string where
  "blog_url = ''https://community.sap.com/t5/blogs/x/ba-p/2''"

definition empty_article :: node where
  "empty_article = Tag ''div'' [(''class'', ''lia-article-body'')] []"

definition nameless_container :: node where
  "nameless_container = Tag ''div'' [(''id'', ''message-list'')] [message_body [para ''Nice post.'']]"

definition blog_page :: node where
  "blog_page =
     html_page
       [Tag ''title'' [] [NavigableString ''A post'']]
       [empty_article, Tag ''div'' [(''class'', ''lia-comments'')] [nameless_container]]"

definition blog_comment :: answer where
  "blog_comment =
     \<lparr> message_id = None, message_url = None, author = None, created_at = None,
       text_md = Some ''Nice post.'', is_accepted = False, upvotes = None \<rparr>"

definition blog_item :: content_item where
  "blog_item =
     \<lparr> url = blog_url, lastmod_from_sitemap = None, content_type = ''blog'',
       title = Some ''A post'', page_author = None, published_at = None, updated_at = None,
       board = None, tags = [], question_text = Some [], question_upvotes = None,
       answers = [blog_comment], reply_count = Some 1 \<rparr>"

text \<open>
  A Q&A page whose only candidate container has no identifier.
\<close>

definition bare_page :: node where
  "bare_page =
     html_page
       [Tag ''title'' [] [NavigableString ''No thread'']]
       [Tag ''a'' [(''rel'', ''tag'')] [NavigableString ''ABAP''],
        Tag ''div'' [(''id'', ''message-list'')] [para ''Nothing here.'']]"

definition bare_item :: content_item where
  "bare_item =
     \<lparr> url = sample_url, lastmod_from_sitemap = None, content_type = ''qna'',
       title = Some ''No thread'', page_author = None, published_at = None, updated_at = None,
       board = None, tags = [''ABAP''], question_text = None, question_upvotes = None,
       answers = [], reply_count = Some 0 \<rparr>"

text \<open>
  A Q&A page whose first marked container has no identifier; the container 8 is marked
  too, the container 7 is not.
\<close>

definition unmarked_page :: node where
  "unmarked_page =
     html_page
       [Tag ''title'' [] [NavigableString ''T'']]
       [Tag ''div'' [(''id'', ''message-list''), (''class'', ''lia-thread-topic'')] [],
        Tag ''div'' [(''id'', ''message-7'')] [message_body [para ''First.'']],
        Tag ''div'' [(''id'', ''message-8''), (''class'', ''lia-message-view-question'')]
          [message_body [para ''Second.'']]]"





text \<open>
  A user mention with a link target, as it occurs in a message body, a mention whose text
  holds two blanks in a row, and two texts of structured data that \<open>json.loads\<close>
  rejects: \<open>answer_ld\<close> with a comma before a closing brace, and a truncated text.
\<close>

definition spaced_mention :: node where
  "spaced_mention = Tag ''a'' [(''href'', ''/u'')] [NavigableString ''@John  Doe'']"

definition mention :: node where
  "mention = Tag ''a'' [(''href'', ''/t5/user/viewprofilepage/user-id/7'')] [NavigableString ''@JohnDoe'']"

definition mention_body :: node where
  "mention_body =
     message_body [Tag ''p'' [] [NavigableString ''Thanks '', mention, NavigableString '', see '',
                                Tag ''a'' [(''href'', ''/t5/foo'')] [NavigableString ''the docs'']]]"

definition comma_ld :: string where
  \<open>comma_ld = ''{"@type": "QAPage", "mainEntity": {"acceptedAnswer": {"url": "#M2"}, }}''\<close>

definition truncated_ld :: string where
  \<open>truncated_ld = ''{"@type": "QAPage", ''\<close>

section \<open>Properties of the tag collection\<close>

lemma strip_Nil: "strip [] = []"
  by (simp add: strip_def)

lemma cleaned_Nil: "cleaned [] = []"
  by (simp add: cleaned_def List.map_filter_simps)

lemma cleaned_Cons:
  "cleaned (v # vals) =
     (case v of None \<Rightarrow> cleaned vals
      | Some s \<Rightarrow> if strip s = [] then cleaned vals else strip s # cleaned vals)"
  by (simp add: cleaned_def List.map_filter_simps split: option.splits)

lemma uniq_push_cases:
  "uniq_push arr v =
     (case v of None \<Rightarrow> arr
      | Some s \<Rightarrow> if strip s = [] \<or> lower (strip s) \<in> lower ` set arr then arr
                  else arr @ [strip s])"
  by (auto simp: uniq_push_def strip_Nil Let_def split: option.splits)

lemma first_by_filter_swap:
  "filter (\<lambda>y. f y \<noteq> f c) (filter (\<lambda>y. f y \<notin> f ` set arr) xs)
   = filter (\<lambda>y. f y \<notin> f ` set (arr @ [c])) xs"
  by (induction xs) auto

lemma push_all_first_by:
  "push_all arr vals =
     arr @ first_by lower (filter (\<lambda>y. lower y \<notin> lower ` set arr) (cleaned vals))"
proof (induction vals arbitrary: arr)
  case Nil
  then show ?case by (simp add: push_all_def cleaned_Nil)
next
  case (Cons v vals)
  have step: "\<And>w. push_all arr (w # vals) = push_all (uniq_push arr w) vals"
    by (simp add: push_all_def)
  show ?case
  proof (cases v)
    case None
    then show ?thesis using Cons[of arr] by (simp add: step uniq_push_cases cleaned_Cons)
  next
    case (Some s)
    show ?thesis
    proof (cases "strip s = [] \<or> lower (strip s) \<in> lower ` set arr")
      case True
      then show ?thesis using Cons[of arr] Some
        by (auto simp: step uniq_push_cases cleaned_Cons)
    next
      case False
      then have "push_all arr (v # vals) = push_all (arr @ [strip s]) vals"
        using Some by (simp add: step uniq_push_cases)
      also have "\<dots> = (arr @ [strip s]) @ first_by lower
          (filter (\<lambda>y. lower y \<notin> lower ` set (arr @ [strip s])) (cleaned vals))"
        by (rule Cons)
      also have "\<dots> = arr @ first_by lower
          (strip s # filter (\<lambda>y. lower y \<notin> lower ` set arr) (cleaned vals))"
        by (simp only: first_by.simps first_by_filter_swap append_assoc append_Cons append_Nil)
      also have "\<dots> = arr @ first_by lower
          (filter (\<lambda>y. lower y \<notin> lower ` set arr) (cleaned (v # vals)))"
        using False Some by (simp add: cleaned_Cons)
      finally show ?thesis .
    qed
  qed
qed

lemma set_first_by: "set (first_by f xs) \<subseteq> set xs"
  by (induction f xs rule: first_by.induct) auto

lemma distinct_first_by: "distinct (map f (first_by f xs))"
proof (induction f xs rule: first_by.induct)
  case (1 f)
  show ?case by simp
next
  case (2 f x xs)
  have "f x \<notin> f ` set (first_by f (filter (\<lambda>y. f y \<noteq> f x) xs))"
    using set_first_by[of f "filter (\<lambda>y. f y \<noteq> f x) xs"] by auto
  with 2 show ?case by simp
qed

lemma find_filter_other:
  "f x \<noteq> f t \<Longrightarrow>
   find (\<lambda>c. f c = f t) (filter (\<lambda>y. f y \<noteq> f x) xs) = find (\<lambda>c. f c = f t) xs"
  by (induction xs) auto

lemma first_by_find:
  "t \<in> set (first_by f xs) \<Longrightarrow> find (\<lambda>c. f c = f t) xs = Some t"
proof (induction f xs rule: first_by.induct)
  case (1 f)
  then show ?case by simp
next
  case (2 f x xs)
  show ?case
  proof (cases "t = x")
    case True
    then show ?thesis by simp
  next
    case False
    with "2.prems" have mem: "t \<in> set (first_by f (filter (\<lambda>y. f y \<noteq> f x) xs))" by simp
    then have "t \<in> set (filter (\<lambda>y. f y \<noteq> f x) xs)"
      using set_first_by[of f "filter (\<lambda>y. f y \<noteq> f x) xs"] by auto
    then have ne: "f x \<noteq> f t" by auto
    have "find (\<lambda>c. f c = f t) (filter (\<lambda>y. f y \<noteq> f x) xs) = Some t"
      using mem by (rule "2.IH")
    then have "find (\<lambda>c. f c = f t) xs = Some t"
      using find_filter_other[of f x t xs] ne by simp
    then show ?thesis using ne by simp
  qed
qed

lemma first_by_covers:
  "c \<in> set xs \<Longrightarrow> \<exists>t \<in> set (first_by f xs). f t = f c"
proof (induction f xs rule: first_by.induct)
  case (1 f)
  then show ?case by simp
next
  case (2 f x xs)
  show ?case
  proof (cases "f c = f x")
    case True
    then show ?thesis by auto
  next
    case False
    with "2.prems" have "c \<in> set (filter (\<lambda>y. f y \<noteq> f x) xs)" by auto
    then have "\<exists>t \<in> set (first_by f (filter (\<lambda>y. f y \<noteq> f x) xs)). f t = f c"
      by (rule "2.IH")
    then show ?thesis by auto
  qed
qed


text \<open>
  C7. The tags of a record are \<open>common_tags\<close> of the page (both \<open>parse_qna_page\<close> and
  \<open>parse_blog_page\<close> store it): the candidates pushed one after the other into an empty
  list. Whatever the candidates, no two entries of the result are equal up to letter case;
  the result is the list of the non-blank stripped candidates with, for each set of candidates
  equal up to case, only the first one kept, in the order of first appearance; every
  candidate is represented, and each entry is the first candidate of its case class.
\<close>

theorem tags_unique_up_to_case:
  "distinct (map lower (push_all [] vals))
   \<and> push_all [] vals = first_by lower (cleaned vals)
   \<and> (\<forall>c \<in> set (cleaned vals). \<exists>t \<in> set (push_all [] vals). lower t = lower c)
   \<and> (\<forall>t \<in> set (push_all [] vals). find (\<lambda>c. lower c = lower t) (cleaned vals) = Some t)
   \<and> common_tags soup = push_all [] (tag_candidates soup)
   \<and> distinct (map lower (common_tags soup))"
proof -
  have eq: "push_all [] vals = first_by lower (cleaned vals)"
    using push_all_first_by[of "[]" vals] by simp
  have d: "distinct (map lower (first_by lower (cleaned vals)))"
    by (rule distinct_first_by)
  have cov: "\<forall>c \<in> set (cleaned vals). \<exists>t \<in> set (first_by lower (cleaned vals)). lower t = lower c"
    using first_by_covers[of _ "cleaned vals" lower] by simp
  have fnd: "\<forall>t \<in> set (first_by lower (cleaned vals)).
      find (\<lambda>c. lower c = lower t) (cleaned vals) = Some t"
    using first_by_find[of _ lower "cleaned vals"] by simp
  have ct: "common_tags soup = push_all [] (tag_candidates soup)"
    by (simp add: common_tags_def)
  have dt: "distinct (map lower (common_tags soup))"
    using push_all_first_by[of "[]" "tag_candidates soup"]
      distinct_first_by[of lower "cleaned (tag_candidates soup)"]
    by (simp add: common_tags_def)
  show ?thesis
    unfolding eq using d cov fnd ct dt by blast
qed

lemma sample_tags_pushed: "push_all [] sample_tags = [''SAP HANA'', ''ABAP'']"
  by code_simp

lemma sample_tags_cleaned:
  "cleaned sample_tags = [''SAP HANA'', ''sap hana'', ''ABAP'', ''abap'', ''Sap Hana'']"
  by code_simp

theorem tags_unique_up_to_case_witness:
  "push_all [] sample_tags = [''SAP HANA'', ''ABAP'']
   \<and> cleaned sample_tags = [''SAP HANA'', ''sap hana'', ''ABAP'', ''abap'', ''Sap Hana'']
   \<and> distinct (map lower (push_all [] sample_tags))
   \<and> push_all [] sample_tags = first_by lower (cleaned sample_tags)
   \<and> list_all (\<lambda>c. list_ex (\<lambda>t. lower t = lower c) (push_all [] sample_tags))
               (cleaned sample_tags)
   \<and> list_all (\<lambda>t. find (\<lambda>c. lower c = lower t) (cleaned sample_tags) = Some t)
               (push_all [] sample_tags)"
  using tags_unique_up_to_case[of sample_tags sample_page] sample_tags_pushed sample_tags_cleaned
  unfolding list_all_iff list_ex_iff
  by blast

section \<open>Properties of the first loop\<close>

lemma store_pair:
  "store (abi, order) (m, ans) =
     (case abi m of
        Some base \<Rightarrow> (abi(m \<mapsto> merge_into base ans), order)
      | None \<Rightarrow> (abi(m \<mapsto> ans), order @ [m]))"
  by (simp add: store_def)

lemma dedup_loop_built:
  "dedup_loop e u ps (soup, abi, order) =
     (case built_answers e u ps soup of
        Inl err \<Rightarrow> Inl err
      | Inr (tr, soup1) \<Rightarrow> Inr (soup1, foldl store (abi, order) tr))"
proof (induction ps arbitrary: soup abi order)
  case Nil
  show ?case by simp
next
  case (Cons p ps)
  show ?case
  proof (cases "at soup p")
    case None
    then show ?thesis by simp
  next
    case (Some dv)
    show ?thesis
    proof (cases "get_msg_id dv")
      case None
      then show ?thesis using Some Cons by (simp add: truthy_def)
    next
      case m: (Some m)
      show ?thesis
      proof (cases "m = []")
        case True
        then show ?thesis using Some m Cons by (simp add: truthy_def)
      next
        case False
        show ?thesis
        proof (cases "build_answer_from_div e soup p dv u")
          case (Inl err)
          then show ?thesis using Some m False by (simp add: truthy_def)
        next
          case (Inr r)
          obtain ans soup' where b: "build_answer_from_div e soup p dv u = Inr (ans, soup')"
            using Inr by (cases r) simp
          show ?thesis
          proof (cases "abi m")
            case None
            then show ?thesis using Some m False b
              by (simp add: truthy_def store_pair Cons split: sum.splits prod.splits)
          next
            case (Some base)
            then show ?thesis using \<open>at soup p = Some dv\<close> m False b
              by (simp add: truthy_def store_pair Cons split: sum.splits prod.splits)
          qed
        qed
      qed
    qed
  qed
qed

lemma store_fst_other:
  "k \<noteq> fst entry \<Longrightarrow> fst (store st entry) k = fst st k"
  by (cases st; cases entry) (auto simp: store_def split: option.splits)

lemma store_dom:
  "dom (fst st) = set (snd st) \<Longrightarrow> dom (fst (store st entry)) = set (snd (store st entry))"
  by (cases st; cases entry) (auto simp: store_def split: option.splits)

lemma store_distinct:
  "dom (fst st) = set (snd st) \<Longrightarrow> distinct (snd st) \<Longrightarrow> distinct (snd (store st entry))"
  by (cases st; cases entry) (auto simp: store_def split: option.splits)

lemma foldl_store_inv:
  "dom (fst st) = set (snd st) \<Longrightarrow> distinct (snd st) \<Longrightarrow>
   dom (fst (foldl store st tr)) = set (snd (foldl store st tr))
   \<and> distinct (snd (foldl store st tr))"
  by (induction tr arbitrary: st) (simp_all add: store_dom store_distinct)

lemma store_order:
  "dom (fst st) = set (snd st) \<Longrightarrow>
   snd (store st entry) = (if fst entry \<in> set (snd st) then snd st else snd st @ [fst entry])"
  by (cases st; cases entry) (auto simp: store_def split: option.splits)

lemma filter_notin_snoc:
  "filter (\<lambda>y. y \<noteq> c) (filter (\<lambda>y. y \<notin> set xs) ys) = filter (\<lambda>y. y \<notin> set (xs @ [c])) ys"
  by (induction ys) auto

lemma foldl_store_order:
  "dom (fst st) = set (snd st) \<Longrightarrow>
   snd (foldl store st tr)
     = snd st @ first_by (\<lambda>x. x) (filter (\<lambda>m. m \<notin> set (snd st)) (map fst tr))"
proof (induction tr arbitrary: st)
  case Nil
  show ?case by simp
next
  case (Cons entry tr)
  have d: "dom (fst (store st entry)) = set (snd (store st entry))"
    using Cons.prems by (rule store_dom)
  show ?case
  proof (cases "fst entry \<in> set (snd st)")
    case True
    then have "snd (store st entry) = snd st" using Cons.prems by (simp add: store_order)
    then show ?thesis using Cons.IH[OF d] True by simp
  next
    case False
    then have o: "snd (store st entry) = snd st @ [fst entry]"
      using Cons.prems by (simp add: store_order)
    have "snd (foldl store st (entry # tr)) = snd (foldl store (store st entry) tr)" by simp
    also have "\<dots> = (snd st @ [fst entry])
        @ first_by (\<lambda>x. x) (filter (\<lambda>m. m \<notin> set (snd st @ [fst entry])) (map fst tr))"
      using Cons.IH[OF d] o by simp
    also have "\<dots> = snd st @ first_by (\<lambda>x. x)
        (fst entry # filter (\<lambda>m. m \<notin> set (snd st)) (map fst tr))"
      by (simp only: first_by.simps filter_notin_snoc append_assoc append_Cons append_Nil)
    also have "\<dots> = snd st @ first_by (\<lambda>x. x)
        (filter (\<lambda>m. m \<notin> set (snd st)) (map fst (entry # tr)))"
      using False by simp
    finally show ?thesis .
  qed
qed

lemma answers_for_Cons:
  "answers_for m ((k, a) # tr) = (if k = m then a # answers_for m tr else answers_for m tr)"
  by (simp add: answers_for_def)

lemma foldl_store_lookup:
  "fst (foldl store st tr) m =
     (case fst st m of
        Some b \<Rightarrow> Some (foldl merge_into b (answers_for m tr))
      | None \<Rightarrow> (case answers_for m tr of [] \<Rightarrow> None | a # as \<Rightarrow> Some (foldl merge_into a as)))"
proof (induction tr arbitrary: st)
  case Nil
  show ?case by (simp add: answers_for_def split: option.splits)
next
  case (Cons entry tr)
  obtain k a where entry: "entry = (k, a)" by (cases entry)
  obtain abi order where st: "st = (abi, order)" by (cases st)
  have step: "fst (store st entry) m =
      (if k = m then (case abi m of None \<Rightarrow> Some a | Some b \<Rightarrow> Some (merge_into b a)) else abi m)"
    by (auto simp: store_def entry st split: option.splits)
  have grp: "answers_for m (entry # tr) = (if k = m then a # answers_for m tr else answers_for m tr)"
    by (simp add: entry answers_for_Cons)
  have "fst (foldl store st (entry # tr)) m = fst (foldl store (store st entry) tr) m" by simp
  also have "\<dots> = (case fst (store st entry) m of
        Some b \<Rightarrow> Some (foldl merge_into b (answers_for m tr))
      | None \<Rightarrow> (case answers_for m tr of [] \<Rightarrow> None | a # as \<Rightarrow> Some (foldl merge_into a as)))"
    by (rule Cons.IH)
  also have "\<dots> = (case fst st m of
        Some b \<Rightarrow> Some (foldl merge_into b (answers_for m (entry # tr)))
      | None \<Rightarrow> (case answers_for m (entry # tr) of [] \<Rightarrow> None
                 | a # as \<Rightarrow> Some (foldl merge_into a as)))"
    unfolding step grp by (simp add: st split: option.splits)
  finally show ?case .
qed

lemma merged_is_accepted:
  "is_accepted (foldl merge_into b as) = (is_accepted b \<or> (\<exists>a \<in> set as. is_accepted a))"
  by (induction as arbitrary: b) (auto simp: merge_into_def)

lemma merged_text_md:
  "text_md (foldl merge_into b as) = first_truthy (map text_md (b # as))"
proof (induction as arbitrary: b)
  case Nil
  show ?case by simp
next
  case (Cons a as)
  have "text_md (foldl merge_into b (a # as)) = first_truthy (map text_md (merge_into b a # as))"
    using Cons[of "merge_into b a"] by simp
  also have "\<dots> = first_truthy (map text_md (b # a # as))"
    by (simp add: merge_into_def)
  finally show ?case .
qed

lemma merged_created_at:
  "created_at (foldl merge_into b as) = first_truthy (map created_at (b # as))"
proof (induction as arbitrary: b)
  case Nil
  show ?case by simp
next
  case (Cons a as)
  have "created_at (foldl merge_into b (a # as))
      = first_truthy (map created_at (merge_into b a # as))"
    using Cons[of "merge_into b a"] by simp
  also have "\<dots> = first_truthy (map created_at (b # a # as))"
    by (simp add: merge_into_def)
  finally show ?case .
qed

lemma merged_upvotes:
  "upvotes (foldl merge_into b as) = first_some upvotes (b # as)"
proof (induction as arbitrary: b)
  case Nil
  show ?case by (simp split: option.splits)
next
  case (Cons a as)
  have "upvotes (foldl merge_into b (a # as)) = first_some upvotes (merge_into b a # as)"
    using Cons[of "merge_into b a"] by simp
  also have "\<dots> = first_some upvotes (b # a # as)"
    by (auto simp: merge_into_def split: option.splits)
  finally show ?case .
qed

lemma merged_message_id:
  "message_id (foldl merge_into b as) = message_id b"
  by (induction as arbitrary: b) (auto simp: merge_into_def)

lemma lookup_all_total:
  "set order \<subseteq> dom m \<Longrightarrow> lookup_all m order = Inr (map (\<lambda>k. the (m k)) order)"
  by (induction order) auto

lemma mark_accepted_lookup:
  "mark_accepted ids m k =
     map_option (\<lambda>a. if k \<in> set ids then a\<lparr>is_accepted := True\<rparr> else a) (m k)"
proof (induction ids arbitrary: m)
  case Nil
  show ?case by (simp add: mark_accepted_def option.map_ident)
next
  case (Cons i ids)
  have step: "mark_accepted (i # ids) m
      = mark_accepted ids (case m i of None \<Rightarrow> m | Some a \<Rightarrow> m(i \<mapsto> a\<lparr>is_accepted := True\<rparr>))"
    by (simp add: mark_accepted_def)
  show ?case
    unfolding step Cons
    by (cases "m i"; cases "m k") auto
qed

lemma dom_mark_accepted: "dom (mark_accepted ids m) = dom m"
  by (auto simp: mark_accepted_lookup dom_def)

lemma promote_question_total:
  assumes "dom abi = set order"
  shows "promote_question q abi order =
     Inr (case q of
            None \<Rightarrow> (None, None, abi, order)
          | Some k \<Rightarrow>
              if k \<noteq> [] \<and> k \<in> set order
              then (text_md (the (abi k)), upvotes (the (abi k)), abi(k := None), remove1 k order)
              else (None, None, abi, order))"
proof (cases q)
  case None
  then show ?thesis by (simp add: promote_question_def)
next
  case (Some k)
  show ?thesis
  proof (cases "abi k")
    case None
    then have "k \<notin> set order" using assms by auto
    then show ?thesis using Some None by (simp add: promote_question_def)
  next
    case a: (Some a)
    then have "k \<in> set order" using assms by auto
    then show ?thesis using Some a by (simp add: promote_question_def)
  qed
qed

lemma build_answer_message_id:
  "build_answer_from_div e soup p dv u = Inr (ans, soup') \<Longrightarrow> message_id ans = get_msg_id dv"
  by (auto simp: build_answer_from_div_def Let_def split: prod.splits sum.splits)

lemma built_answers_Cons:
  "built_answers e u (p # ps) soup = Inr (tr, soup1) \<Longrightarrow>
   built_answers e u ps soup = Inr (tr, soup1)
   \<or> (\<exists>dv m ans soup' tr'. at soup p = Some dv \<and> get_msg_id dv = Some m \<and> m \<noteq> []
         \<and> build_answer_from_div e soup p dv u = Inr (ans, soup')
         \<and> built_answers e u ps soup' = Inr (tr', soup1) \<and> tr = (m, ans) # tr')"
  by (auto split: option.splits if_splits prod.splits sum.splits)

lemma built_answers_ids:
  "built_answers e u ps soup = Inr (tr, soup1) \<Longrightarrow>
   \<forall>(m, a) \<in> set tr. m \<noteq> [] \<and> message_id a = Some m"
proof (induction ps arbitrary: soup tr)
  case Nil
  then show ?case by simp
next
  case (Cons p ps)
  from built_answers_Cons[OF Cons.prems] show ?case
  proof
    assume "built_answers e u ps soup = Inr (tr, soup1)"
    then show ?thesis by (rule Cons.IH)
  next
    assume "\<exists>dv m ans soup' tr'. at soup p = Some dv \<and> get_msg_id dv = Some m \<and> m \<noteq> []
         \<and> build_answer_from_div e soup p dv u = Inr (ans, soup')
         \<and> built_answers e u ps soup' = Inr (tr', soup1) \<and> tr = (m, ans) # tr'"
    then obtain dv m ans soup' tr' where h: "get_msg_id dv = Some m" "m \<noteq> []"
        "build_answer_from_div e soup p dv u = Inr (ans, soup')"
        "built_answers e u ps soup' = Inr (tr', soup1)" "tr = (m, ans) # tr'"
      by blast
    have "message_id ans = Some m" using build_answer_message_id[OF h(3)] h(1) by simp
    then show ?thesis using Cons.IH[OF h(4)] h(2,5) by simp
  qed
qed

lemma filter_id_first_by:
  "c \<notin> set xs \<Longrightarrow> filter (\<lambda>y. y \<noteq> c) xs = xs"
  by (induction xs) auto

lemma foldl_store_empty:
  "foldl store (Map.empty, []) tr = (merged tr, ids_in_order tr)"
proof -
  have "fst (foldl store (Map.empty, []) tr) = merged tr"
    by (rule ext) (simp add: foldl_store_lookup merged_def)
  moreover have "snd (foldl store (Map.empty, []) tr) = ids_in_order tr"
    using foldl_store_order[of "(Map.empty, [])" tr] by (simp add: ids_in_order_def)
  ultimately show ?thesis by (metis prod.collapse)
qed

lemma dom_merged: "dom (merged tr) = set (ids_in_order tr)"
  using foldl_store_inv[of "(Map.empty, [])" tr] by (simp add: foldl_store_empty)

lemma distinct_ids_in_order: "distinct (ids_in_order tr)"
  using foldl_store_inv[of "(Map.empty, [])" tr] by (simp add: foldl_store_empty)

lemma answers_for_empty: "(answers_for m tr = []) = (m \<notin> fst ` set tr)"
  by (induction tr) (auto simp: answers_for_def)

lemma set_ids_in_order: "set (ids_in_order tr) = fst ` set tr"
proof -
  have "\<And>m. (merged tr m \<noteq> None) = (m \<in> fst ` set tr)"
  proof -
    fix m
    show "(merged tr m \<noteq> None) = (m \<in> fst ` set tr)"
      using answers_for_empty[of m tr] by (cases "answers_for m tr") (simp_all add: merged_def)
  qed
  then have "dom (merged tr) = fst ` set tr"
    by (auto simp: dom_def)
  then show ?thesis by (simp add: dom_merged)
qed

lemma remove1_filter_distinct:
  "distinct xs \<Longrightarrow> remove1 k xs = filter (\<lambda>m. m \<noteq> k) xs"
  by (induction xs) (auto simp: filter_id_first_by)

lemma extract_flat_qna_unfold:
  "extract_flat_qna e soup u =
     (case dedup_loop e u (candidate_containers soup) (soup, Map.empty, []) of
        Inl err \<Rightarrow> Inl err
      | Inr (soup1, answers_by_id, order) \<Rightarrow>
          (case question_loop soup1 (candidate_containers soup) of
             Inl err \<Rightarrow> Inl err
           | Inr q0 \<Rightarrow>
               (case promote_question (fallback_question q0 order) answers_by_id order of
                  Inl err \<Rightarrow> Inl err
                | Inr (qt, qu, by_id, order') \<Rightarrow>
                    (case lookup_all
                            (mark_accepted (extract_json_ld_accepted_ids e soup1) by_id) order' of
                       Inl err \<Rightarrow> Inl err
                     | Inr as \<Rightarrow> Inr (qt, qu, as, length as)))))"
  by (cases "candidate_containers soup = []")
     (simp_all add: extract_flat_qna_def Let_def fallback_question_def promote_question_def)

lemma extract_flat_qna_result:
  assumes built: "built_answers e u (candidate_containers soup) soup = Inr (tr, soup1)"
      and ql: "question_loop soup1 (candidate_containers soup) = Inr q0"
  shows "extract_flat_qna e soup u =
     Inr (case fallback_question q0 (ids_in_order tr) of
            None \<Rightarrow> None
          | Some k \<Rightarrow> if k \<in> set (ids_in_order tr) then text_md (the (merged tr k)) else None,
          case fallback_question q0 (ids_in_order tr) of
            None \<Rightarrow> None
          | Some k \<Rightarrow> if k \<in> set (ids_in_order tr) then upvotes (the (merged tr k)) else None,
          map (\<lambda>k. flagged (extract_json_ld_accepted_ids e soup1) k (the (merged tr k)))
              (filter (\<lambda>m. Some m \<noteq> fallback_question q0 (ids_in_order tr)) (ids_in_order tr)),
          length (filter (\<lambda>m. Some m \<noteq> fallback_question q0 (ids_in_order tr))
                         (ids_in_order tr)))"
proof -
  let ?order = "ids_in_order tr"
  let ?q = "fallback_question q0 ?order"
  let ?ids = "extract_json_ld_accepted_ids e soup1"
  have dl: "dedup_loop e u (candidate_containers soup) (soup, Map.empty, [])
      = Inr (soup1, merged tr, ?order)"
    by (simp add: dedup_loop_built built foldl_store_empty)
  have nonempty: "[] \<notin> set ?order"
    using built_answers_ids[OF built] by (auto simp: set_ids_in_order)
  have dist: "distinct ?order" by (rule distinct_ids_in_order)
  have look: "\<And>by_id order'. set order' \<subseteq> dom by_id \<Longrightarrow>
      lookup_all (mark_accepted ?ids by_id) order'
        = Inr (map (\<lambda>k. flagged ?ids k (the (by_id k))) order')"
  proof -
    fix by_id :: "string \<rightharpoonup> answer" and order'
    assume sub: "set order' \<subseteq> dom by_id"
    then have "lookup_all (mark_accepted ?ids by_id) order'
        = Inr (map (\<lambda>k. the (mark_accepted ?ids by_id k)) order')"
      by (simp add: lookup_all_total dom_mark_accepted)
    also have "map (\<lambda>k. the (mark_accepted ?ids by_id k)) order'
        = map (\<lambda>k. flagged ?ids k (the (by_id k))) order'"
      using sub by (auto simp: mark_accepted_lookup flagged_def dom_def subset_iff)
    finally show "lookup_all (mark_accepted ?ids by_id) order'
        = Inr (map (\<lambda>k. flagged ?ids k (the (by_id k))) order')" .
  qed
  show ?thesis
  proof (cases "\<exists>k. ?q = Some k \<and> k \<in> set ?order")
    case True
    then obtain k where k: "?q = Some k" "k \<in> set ?order" by blast
    then have kne: "k \<noteq> []" using nonempty by auto
    have pq: "promote_question (Some k) (merged tr) ?order
        = Inr (text_md (the (merged tr k)), upvotes (the (merged tr k)),
               (merged tr)(k := None), remove1 k ?order)"
      using k kne by (simp add: promote_question_total[OF dom_merged])
    have sub: "set (remove1 k ?order) \<subseteq> dom ((merged tr)(k := None))"
      using dist by (auto simp: dom_merged)
    have flt: "filter (\<lambda>m. m \<noteq> k) ?order = remove1 k ?order"
      using dist by (simp add: remove1_filter_distinct)
    have same: "map (\<lambda>m. flagged ?ids m (the (((merged tr)(k := None)) m))) (remove1 k ?order)
        = map (\<lambda>m. flagged ?ids m (the (merged tr m))) (remove1 k ?order)"
      using dist by auto
    have notin: "k \<notin> set (remove1 k ?order)" using dist by simp
    show ?thesis
      unfolding extract_flat_qna_unfold dl
      by (simp add: ql pq look[OF sub] flt k notin cong: map_cong)
  next
    case False
    have pq: "promote_question ?q (merged tr) ?order = Inr (None, None, merged tr, ?order)"
      using False by (auto simp: promote_question_total[OF dom_merged] split: option.splits)
    have sub: "set ?order \<subseteq> dom (merged tr)" by (simp add: dom_merged)
    have flt: "filter (\<lambda>m. Some m \<noteq> ?q) ?order = ?order"
      using False by (auto simp: filter_id_conv)
    show ?thesis
      unfolding extract_flat_qna_unfold dl
      using False by (auto simp: ql pq look[OF sub] flt split: option.splits)
  qed
qed

section \<open>The sample page, evaluated\<close>

lemma sample_candidates: "candidate_containers sample_page = sample_containers"
  by code_simp

lemma sample_built:
  "built_answers sample_env sample_url sample_containers sample_page
     = Inr (sample_trace, sample_page)"
  by code_simp

lemma sample_question: "question_loop sample_page sample_containers = Inr (Some ''101'')"
  by code_simp

lemma sample_ids: "extract_json_ld_accepted_ids sample_env sample_page = [''55'']"
  by code_simp

lemma sample_order: "ids_in_order sample_trace = [''101'', ''55'', ''77'']"
  by code_simp

section \<open>Question and order of the answers\<close>

lemma merged_of_listed:
  assumes "built_answers e u ps soup = Inr (tr, soup1)" and "k \<in> set (ids_in_order tr)"
  shows "\<exists>a. merged tr k = Some a \<and> message_id a = Some k"
proof -
  from assms(2) have "k \<in> fst ` set tr" by (simp add: set_ids_in_order)
  then have ne: "answers_for k tr \<noteq> []" by (simp add: answers_for_empty)
  then obtain a as where split: "answers_for k tr = a # as" by (cases "answers_for k tr") auto
  then have "a \<in> set (answers_for k tr)" by simp
  then have "(k, a) \<in> set tr" by (auto simp: answers_for_def)
  then have "message_id a = Some k" using built_answers_ids[OF assms(1)] by auto
  then show ?thesis by (simp add: merged_def split merged_message_id)
qed

lemma message_id_flagged: "message_id (flagged ids k a) = message_id a"
  by (simp add: flagged_def)

lemma flat_qna_message_ids:
  assumes "built_answers e u ps soup = Inr (tr, soup1)" and "set ks \<subseteq> set (ids_in_order tr)"
  shows "map message_id (map (\<lambda>k. flagged ids k (the (merged tr k))) ks) = map Some ks"
  using assms(2)
proof (induction ks)
  case Nil
  show ?case by simp
next
  case (Cons k ks)
  then have "k \<in> set (ids_in_order tr)" by simp
  from merged_of_listed[OF assms(1) this] obtain a where "merged tr k = Some a" "message_id a = Some k"
    by blast
  then show ?case using Cons by (simp add: message_id_flagged)
qed

text \<open>
  C3. When the two loops over the candidate containers end without an error, the extraction
  returns; the identifiers of the returned answers are the distinct identifiers of the
  containers in the order of their first appearance, without the identifier chosen as the
  question (\<open>question_id\<close> after the fallback), which is not the identifier of any
  returned answer.
\<close>

theorem question_excluded_answers_in_order:
  assumes "built_answers e u (candidate_containers soup) soup = Inr (tr, soup1)"
      and "question_loop soup1 (candidate_containers soup) = Inr q0"
  shows "\<exists>qt qu as.
           extract_flat_qna e soup u = Inr (qt, qu, as, length as)
           \<and> map message_id as
               = map Some (filter (\<lambda>m. Some m \<noteq> fallback_question q0 (ids_in_order tr))
                                  (ids_in_order tr))
           \<and> fallback_question q0 (ids_in_order tr) \<notin> set (map message_id as)
           \<and> ids_in_order tr = first_by (\<lambda>m. m) (map fst tr)"
proof -
  let ?q = "fallback_question q0 (ids_in_order tr)"
  let ?ks = "filter (\<lambda>m. Some m \<noteq> ?q) (ids_in_order tr)"
  let ?as = "map (\<lambda>k. flagged (extract_json_ld_accepted_ids e soup1) k (the (merged tr k))) ?ks"
  have ids: "map message_id ?as = map Some ?ks"
    by (rule flat_qna_message_ids[OF assms(1)]) auto
  have notin: "?q \<notin> set (map message_id ?as)"
    unfolding ids by auto
  have len: "length ?ks = length ?as" by simp
  have res: "extract_flat_qna e soup u =
      Inr (case ?q of None \<Rightarrow> None
           | Some k \<Rightarrow> if k \<in> set (ids_in_order tr) then text_md (the (merged tr k)) else None,
           case ?q of None \<Rightarrow> None
           | Some k \<Rightarrow> if k \<in> set (ids_in_order tr) then upvotes (the (merged tr k)) else None,
           ?as, length ?as)"
    using extract_flat_qna_result[OF assms] by (simp only: len)
  show ?thesis
  proof (intro exI conjI)
    show "extract_flat_qna e soup u =
      Inr (case ?q of None \<Rightarrow> None
           | Some k \<Rightarrow> if k \<in> set (ids_in_order tr) then text_md (the (merged tr k)) else None,
           case ?q of None \<Rightarrow> None
           | Some k \<Rightarrow> if k \<in> set (ids_in_order tr) then upvotes (the (merged tr k)) else None,
           ?as, length ?as)" by (rule res)
    show "map message_id ?as = map Some ?ks" by (rule ids)
    show "?q \<notin> set (map message_id ?as)" by (rule notin)
    show "ids_in_order tr = first_by (\<lambda>m. m) (map fst tr)" by (simp add: ids_in_order_def)
  qed
qed


lemma sample_built_page:
  "built_answers sample_env sample_url (candidate_containers sample_page) sample_page
     = Inr (sample_trace, sample_page)"
  by (simp only: sample_candidates sample_built)

lemma sample_question_page:
  "question_loop sample_page (candidate_containers sample_page) = Inr (Some ''101'')"
  by (simp only: sample_candidates sample_question)

lemma sample_assembled:
  "(case fallback_question (Some ''101'') [''101'', ''55'', ''77''] of
      None \<Rightarrow> None
    | Some k \<Rightarrow> if k \<in> set [''101'', ''55'', ''77''] then text_md (the (merged sample_trace k))
                else None,
    case fallback_question (Some ''101'') [''101'', ''55'', ''77''] of
      None \<Rightarrow> None
    | Some k \<Rightarrow> if k \<in> set [''101'', ''55'', ''77''] then upvotes (the (merged sample_trace k))
                else None,
    map (\<lambda>k. flagged [''55''] k (the (merged sample_trace k)))
        (filter (\<lambda>m. Some m \<noteq> fallback_question (Some ''101'') [''101'', ''55'', ''77''])
                [''101'', ''55'', ''77'']),
    length (filter (\<lambda>m. Some m \<noteq> fallback_question (Some ''101'') [''101'', ''55'', ''77''])
                   [''101'', ''55'', ''77'']))
   = (Some ''How do I configure X?'', None, sample_answers, 2)"
  by code_simp

lemma sample_result:
  "extract_flat_qna sample_env sample_page sample_url
     = Inr (Some ''How do I configure X?'', None, sample_answers, 2)"
  using extract_flat_qna_result[OF sample_built_page sample_question_page]
  by (simp only: sample_ids sample_order sample_assembled)

theorem question_excluded_answers_in_order_witness:
  "built_answers sample_env sample_url (candidate_containers sample_page) sample_page
     = Inr (sample_trace, sample_page)
   \<and> question_loop sample_page (candidate_containers sample_page) = Inr (Some ''101'')
   \<and> ids_in_order sample_trace = [''101'', ''55'', ''77'']
   \<and> fallback_question (Some ''101'') (ids_in_order sample_trace) = Some ''101''
   \<and> extract_flat_qna sample_env sample_page sample_url
       = Inr (Some ''How do I configure X?'', None, sample_answers, 2)
   \<and> map message_id sample_answers = [Some ''55'', Some ''77'']
   \<and> Some ''101'' \<notin> set (map message_id sample_answers)"
  using question_excluded_answers_in_order[OF sample_built_page sample_question_page]
    sample_built_page sample_question_page sample_result sample_order
  by (auto simp: fallback_question_def)

section \<open>Merging containers with the same identifier\<close>

lemma filter_by_message_id:
  assumes "\<forall>k \<in> set ks. message_id (F k) = Some k" and "distinct ks"
  shows "filter (\<lambda>a. message_id a = Some m) (map F ks) = (if m \<in> set ks then [F m] else [])"
  using assms by (induction ks) auto

lemma flagged_fields:
  "is_accepted (flagged ids k a) = (is_accepted a \<or> k \<in> set ids)"
  "text_md (flagged ids k a) = text_md a"
  "created_at (flagged ids k a) = created_at a"
  "upvotes (flagged ids k a) = upvotes a"
  by (auto simp: flagged_def)

lemma merged_fields:
  assumes "answers_for m tr \<noteq> []"
  shows "\<exists>a. merged tr m = Some a
           \<and> is_accepted a = list_ex is_accepted (answers_for m tr)
           \<and> text_md a = first_truthy (map text_md (answers_for m tr))
           \<and> created_at a = first_truthy (map created_at (answers_for m tr))
           \<and> upvotes a = first_some upvotes (answers_for m tr)"
proof -
  from assms obtain b bs where split: "answers_for m tr = b # bs"
    by (cases "answers_for m tr") auto
  have "merged tr m = Some (foldl merge_into b bs)" by (simp add: merged_def split)
  moreover have "is_accepted (foldl merge_into b bs) = list_ex is_accepted (b # bs)"
    by (simp add: merged_is_accepted list_ex_iff)
  ultimately show ?thesis
    unfolding split
    using merged_text_md[of b bs] merged_created_at[of b bs] merged_upvotes[of b bs]
    by simp
qed

text \<open>
  C1, as amended. Let the two loops end without an error, and let the accepted identifiers
  that the structured data gives after the first loop be those it gives on the page as
  parsed (the rendering of the message bodies has removed none of them). Then the extraction
  returns, and for every identifier that one or more containers resolve to: if it is the
  identifier chosen as the question, no answer carries it and the question text and upvotes
  are the first non-empty text and the first upvote count among the answers built for its
  containers, in candidate order; otherwise exactly one answer carries it, whose text,
  timestamp and upvote count are the first non-empty values among those answers, and whose
  accepted flag is the disjunction of their accepted flags and of the identifier being named
  by the structured data of the page.
\<close>

theorem merged_fields_of_shared_identifier:
  assumes "built_answers e u (candidate_containers soup) soup = Inr (tr, soup1)"
      and "question_loop soup1 (candidate_containers soup) = Inr q0"
      and "m \<in> fst ` set tr"
      and "set (extract_json_ld_accepted_ids e soup1) = set (extract_json_ld_accepted_ids e soup)"
  shows "\<exists>qt qu as.
           extract_flat_qna e soup u = Inr (qt, qu, as, length as)
           \<and> (if fallback_question q0 (ids_in_order tr) = Some m
               then filter (\<lambda>a. message_id a = Some m) as = []
                    \<and> qt = first_truthy (map text_md (answers_for m tr))
                    \<and> qu = first_some upvotes (answers_for m tr)
               else (\<exists>a. filter (\<lambda>a. message_id a = Some m) as = [a]
                      \<and> is_accepted a
                          = (list_ex is_accepted (answers_for m tr)
                             \<or> m \<in> set (extract_json_ld_accepted_ids e soup))
                      \<and> text_md a = first_truthy (map text_md (answers_for m tr))
                      \<and> created_at a = first_truthy (map created_at (answers_for m tr))
                      \<and> upvotes a = first_some upvotes (answers_for m tr)))"
proof -
  let ?order = "ids_in_order tr"
  let ?q = "fallback_question q0 ?order"
  let ?ids = "extract_json_ld_accepted_ids e soup1"
  let ?F = "\<lambda>k. flagged ?ids k (the (merged tr k))"
  let ?ks = "filter (\<lambda>k. Some k \<noteq> ?q) ?order"
  let ?qt = "case ?q of None \<Rightarrow> None
           | Some k \<Rightarrow> if k \<in> set ?order then text_md (the (merged tr k)) else None"
  let ?qu = "case ?q of None \<Rightarrow> None
           | Some k \<Rightarrow> if k \<in> set ?order then upvotes (the (merged tr k)) else None"
  have len: "length ?ks = length (map ?F ?ks)" by simp
  have res: "extract_flat_qna e soup u = Inr (?qt, ?qu, map ?F ?ks, length (map ?F ?ks))"
    using extract_flat_qna_result[OF assms(1,2)] by (simp only: len)
  have m_listed: "m \<in> set ?order" using assms(3) by (simp add: set_ids_in_order)
  have ne: "answers_for m tr \<noteq> []" using assms(3) by (simp add: answers_for_empty)
  from merged_fields[OF ne] obtain a where a: "merged tr m = Some a"
      "is_accepted a = list_ex is_accepted (answers_for m tr)"
      "text_md a = first_truthy (map text_md (answers_for m tr))"
      "created_at a = first_truthy (map created_at (answers_for m tr))"
      "upvotes a = first_some upvotes (answers_for m tr)"
    by blast
  have ids_ok: "\<forall>k \<in> set ?ks. message_id (?F k) = Some k"
  proof
    fix k assume "k \<in> set ?ks"
    then have "k \<in> set ?order" by simp
    from merged_of_listed[OF assms(1) this] show "message_id (?F k) = Some k"
      by (auto simp: message_id_flagged)
  qed
  have dist: "distinct ?ks" using distinct_ids_in_order[of tr] by simp
  have flt: "filter (\<lambda>a. message_id a = Some m) (map ?F ?ks) = (if m \<in> set ?ks then [?F m] else [])"
    by (rule filter_by_message_id[OF ids_ok dist])
  show ?thesis
  proof (cases "?q = Some m")
    case True
    then have "m \<notin> set ?ks" by simp
    then have "filter (\<lambda>a. message_id a = Some m) (map ?F ?ks) = []" using flt by simp
    moreover have "?qt = first_truthy (map text_md (answers_for m tr))"
      using True m_listed a by simp
    moreover have "?qu = first_some upvotes (answers_for m tr)"
      using True m_listed a by simp
    ultimately show ?thesis using res True by (intro exI[of _ ?qt] exI[of _ ?qu] exI[of _ "map ?F ?ks"]) simp
  next
    case False
    then have "m \<in> set ?ks" using m_listed by simp
    then have one: "filter (\<lambda>a. message_id a = Some m) (map ?F ?ks) = [?F m]" using flt by simp
    have "is_accepted (?F m)
        = (list_ex is_accepted (answers_for m tr)
           \<or> m \<in> set (extract_json_ld_accepted_ids e soup))"
      "text_md (?F m) = first_truthy (map text_md (answers_for m tr))"
      "created_at (?F m) = first_truthy (map created_at (answers_for m tr))"
      "upvotes (?F m) = first_some upvotes (answers_for m tr)"
      using a assms(4) by (simp_all add: flagged_fields)
    with one res False show ?thesis
      by (intro exI[of _ ?qt] exI[of _ ?qu] exI[of _ "map ?F ?ks"]) (simp del: map_map)
  qed
qed


lemma sample_55:
  "answers_for ''55'' sample_trace
     = [sample_answer ''55'' (Some ''2023-05-10T14:22:00Z'') None False None,
        sample_answer ''55'' None (Some ''Use config Y.'') False (Some 3)]"
  by code_simp

lemma sample_55_containers:
  "map_option get_msg_id (at sample_page [0, 1, 3]) = Some (Some ''55'')
   \<and> map_option get_msg_id (at sample_page [0, 1, 4]) = Some (Some ''55'')
   \<and> map_option container_has_accepted_marker_for_message (at sample_page [0, 1, 3]) = Some False
   \<and> map_option container_has_accepted_marker_for_message (at sample_page [0, 1, 4]) = Some False"
  by code_simp

lemma sample_55_fields:
  "filter (\<lambda>a. message_id a = Some ''55'') sample_answers
     = [sample_answer ''55'' (Some ''2023-05-10T14:22:00Z'') (Some ''Use config Y.'') True (Some 3)]
   \<and> first_truthy (map text_md (answers_for ''55'' sample_trace)) = Some ''Use config Y.''
   \<and> first_truthy (map created_at (answers_for ''55'' sample_trace)) = Some ''2023-05-10T14:22:00Z''
   \<and> first_some upvotes (answers_for ''55'' sample_trace) = Some 3
   \<and> list_ex is_accepted (answers_for ''55'' sample_trace) = False"
  by code_simp

theorem merged_fields_of_shared_identifier_witness:
  "built_answers sample_env sample_url (candidate_containers sample_page) sample_page
     = Inr (sample_trace, sample_page)
   \<and> question_loop sample_page (candidate_containers sample_page) = Inr (Some ''101'')
   \<and> length (answers_for ''55'' sample_trace) = 2
   \<and> fallback_question (Some ''101'') (ids_in_order sample_trace) \<noteq> Some ''55''
   \<and> extract_flat_qna sample_env sample_page sample_url
       = Inr (Some ''How do I configure X?'', None, sample_answers, 2)
   \<and> filter (\<lambda>a. message_id a = Some ''55'') sample_answers
       = [sample_answer ''55'' (Some ''2023-05-10T14:22:00Z'') (Some ''Use config Y.'') True (Some 3)]
   \<and> list_ex is_accepted (answers_for ''55'' sample_trace) = False
   \<and> extract_json_ld_accepted_ids sample_env sample_page = [''55'']
   \<and> first_truthy (map text_md (answers_for ''55'' sample_trace)) = Some ''Use config Y.''
   \<and> first_truthy (map created_at (answers_for ''55'' sample_trace)) = Some ''2023-05-10T14:22:00Z''
   \<and> first_some upvotes (answers_for ''55'' sample_trace) = Some 3"
proof -
  have listed: "''55'' \<in> fst ` set sample_trace"
    using sample_55 answers_for_empty[of "''55''" sample_trace] by simp
  have same: "set (extract_json_ld_accepted_ids sample_env sample_page)
      = set (extract_json_ld_accepted_ids sample_env sample_page)" ..
  note t = merged_fields_of_shared_identifier[OF sample_built_page sample_question_page listed same]
  have "length (answers_for ''55'' sample_trace) = 2" by (simp add: sample_55)
  moreover have "fallback_question (Some ''101'') (ids_in_order sample_trace) \<noteq> Some ''55''"
    by (simp add: fallback_question_def)
  ultimately show ?thesis
    using t sample_built_page sample_question_page sample_result sample_55_fields sample_ids
    by simp
qed

text \<open>
  C1, as stated, fails on the sample page: neither container of the identifier 55 carries an
  accepted marker, and the one answer returned for 55 is accepted, because the structured
  data names \<open>#M55\<close>.
\<close>

theorem accepted_beyond_container_signals:
  "map_option get_msg_id (at sample_page [0, 1, 3]) = Some (Some ''55'')
   \<and> map_option get_msg_id (at sample_page [0, 1, 4]) = Some (Some ''55'')
   \<and> map_option container_has_accepted_marker_for_message (at sample_page [0, 1, 3]) = Some False
   \<and> map_option container_has_accepted_marker_for_message (at sample_page [0, 1, 4]) = Some False
   \<and> built_answers sample_env sample_url (candidate_containers sample_page) sample_page
       = Inr (sample_trace, sample_page)
   \<and> map is_accepted (answers_for ''55'' sample_trace) = [False, False]
   \<and> extract_flat_qna sample_env sample_page sample_url
       = Inr (Some ''How do I configure X?'', None, sample_answers, 2)
   \<and> filter (\<lambda>a. message_id a = Some ''55'') sample_answers
       = [sample_answer ''55'' (Some ''2023-05-10T14:22:00Z'') (Some ''Use config Y.'') True (Some 3)]
   \<and> is_accepted (sample_answer ''55'' (Some ''2023-05-10T14:22:00Z'') (Some ''Use config Y.'')
                                   True (Some 3))
       \<noteq> list_ex is_accepted (answers_for ''55'' sample_trace)"
  using sample_55_containers sample_built_page sample_result sample_55_fields sample_55
  by (simp add: sample_answer_def)

section \<open>Structured data inside a message body\<close>

text \<open>
  C2. On \<open>ld_in_body_page\<close> the structured data of the page as received names \<open>#M2\<close>,
  and the answer 2 is returned with its accepted flag false: the body extraction of the
  container 2 removes the script element from the page before the structured data is read.
\<close>

theorem ld_block_in_message_body_lost:
  "extract_json_ld_accepted_ids sample_env ld_in_body_page = [''2'']
   \<and> extract_flat_qna sample_env ld_in_body_page sample_url
       = Inr (Some ''Q?'', None, [ld_in_body_answer], 1)
   \<and> message_id ld_in_body_answer = Some ''2''
   \<and> is_accepted ld_in_body_answer = False"
  by code_simp

section \<open>The other sample pages, evaluated\<close>

lemma blog_parsed: "parse_blog_page sample_env blog_url blog_page = Inr blog_item"
  by code_simp

lemma bare_parsed: "parse_qna_page sample_env sample_url bare_page = Inr bare_item"
  by code_simp



section \<open>Containers without an identifier\<close>

lemma extract_flat_qna_stages:
  assumes "extract_flat_qna e soup u = Inr r"
  shows "\<exists>tr soup1 q0. built_answers e u (candidate_containers soup) soup = Inr (tr, soup1)
            \<and> question_loop soup1 (candidate_containers soup) = Inr q0"
proof (cases "built_answers e u (candidate_containers soup) soup")
  case (Inl err)
  then have "extract_flat_qna e soup u = Inl err"
    by (simp add: extract_flat_qna_unfold dedup_loop_built)
  with assms show ?thesis by simp
next
  case (Inr b)
  obtain tr soup1 where b: "b = (tr, soup1)" by (cases b)
  show ?thesis
  proof (cases "question_loop soup1 (candidate_containers soup)")
    case (Inl err)
    then have "extract_flat_qna e soup u = Inl err"
      using Inr b by (simp add: extract_flat_qna_unfold dedup_loop_built foldl_store_empty)
    with assms show ?thesis by simp
  next
    case q: (Inr q0)
    then show ?thesis using Inr b by simp
  qed
qed

lemma returned_answers_identified:
  assumes "extract_flat_qna e soup u = Inr (qt, qu, as, n)"
  shows "list_all (\<lambda>a. truthy (message_id a)) as"
proof -
  from extract_flat_qna_stages[OF assms] obtain tr soup1 q0
    where b: "built_answers e u (candidate_containers soup) soup = Inr (tr, soup1)"
      and q: "question_loop soup1 (candidate_containers soup) = Inr q0"
    by blast
  let ?ks = "filter (\<lambda>m. Some m \<noteq> fallback_question q0 (ids_in_order tr)) (ids_in_order tr)"
  let ?F = "\<lambda>k. flagged (extract_json_ld_accepted_ids e soup1) k (the (merged tr k))"
  have as: "as = map ?F ?ks"
    using extract_flat_qna_result[OF b q] assms by simp
  have ids: "map message_id (map ?F ?ks) = map Some ?ks"
    by (rule flat_qna_message_ids[OF b]) auto
  have ne: "[] \<notin> set ?ks"
    using built_answers_ids[OF b] by (auto simp: set_ids_in_order)
  have "list_all truthy (map Some ?ks)"
    using ne by (induction ?ks) (auto simp: truthy_def list_all_iff)
  then have "list_all truthy (map message_id (map ?F ?ks))" by (simp only: ids)
  then show ?thesis unfolding as by (simp add: list_all_iff)
qed

lemma question_fields_from_identified:
  assumes "extract_flat_qna e soup u = Inr (qt, qu, as, n)"
  shows "qt = None \<and> qu = None
       \<or> (\<exists>tr soup1 k. built_answers e u (candidate_containers soup) soup = Inr (tr, soup1)
              \<and> k \<in> fst ` set tr \<and> k \<noteq> []
              \<and> qt = first_truthy (map text_md (answers_for k tr))
              \<and> qu = first_some upvotes (answers_for k tr))"
proof -
  from extract_flat_qna_stages[OF assms] obtain tr soup1 q0
    where b: "built_answers e u (candidate_containers soup) soup = Inr (tr, soup1)"
      and q: "question_loop soup1 (candidate_containers soup) = Inr q0"
    by blast
  let ?order = "ids_in_order tr"
  let ?q = "fallback_question q0 ?order"
  have qt: "qt = (case ?q of None \<Rightarrow> None
                 | Some k \<Rightarrow> if k \<in> set ?order then text_md (the (merged tr k)) else None)"
    and qu: "qu = (case ?q of None \<Rightarrow> None
                 | Some k \<Rightarrow> if k \<in> set ?order then upvotes (the (merged tr k)) else None)"
    using extract_flat_qna_result[OF b q] assms by simp_all
  show ?thesis
  proof (cases ?q)
    case None
    then show ?thesis using qt qu by simp
  next
    case (Some k)
    show ?thesis
    proof (cases "k \<in> set ?order")
      case False
      then show ?thesis using qt qu Some by simp
    next
      case True
      then have kin: "k \<in> fst ` set tr" by (simp add: set_ids_in_order)
      then have ne: "answers_for k tr \<noteq> []" by (simp add: answers_for_empty)
      from merged_fields[OF ne] obtain a where a: "merged tr k = Some a"
          "text_md a = first_truthy (map text_md (answers_for k tr))"
          "upvotes a = first_some upvotes (answers_for k tr)"
        by blast
      have k: "k \<noteq> []" using built_answers_ids[OF b] kin by auto
      have "qt = first_truthy (map text_md (answers_for k tr))"
        "qu = first_some upvotes (answers_for k tr)"
        using qt qu Some True a by simp_all
      then show ?thesis using b kin k by blast
    qed
  qed
qed

text \<open>
  C5, as amended. A container whose identifier does not resolve (\<open>get_msg_id\<close> gives
  nothing, or the empty string). On a Q&A page the first loop passes over it and leaves the
  page, \<open>answers_by_id\<close> and \<open>order\<close> as they are, so that no answer is built for it
  and it never reaches deduplication; every answer that \<open>extract_flat_qna\<close> returns has
  an identifier, and the question text and upvotes, when one of them is present, are those
  merged for a non-empty identifier that some container resolves to. The search for the
  question does examine the container: when it carries a question marker the search ends
  with it, whatever containers follow, and otherwise goes on. On a blog page the loop over
  the comment containers builds an answer for it, with that absent identifier, and appends
  it (or ends with the exception that building the answer raises).
\<close>

theorem unidentified_container_skipped_on_qna_kept_on_blog:
  assumes "at soup p = Some dv" and "\<not> truthy (get_msg_id dv)"
  shows "dedup_loop e u (p # ps) (soup, abi, order) = dedup_loop e u ps (soup, abi, order)
       \<and> built_answers e u (p # ps) soup = built_answers e u ps soup
       \<and> question_loop soup (p # ps)
           = (if is_question_div dv then Inr (get_msg_id dv) else question_loop soup ps)
       \<and> (\<forall>page qt qu as n. extract_flat_qna e page u = Inr (qt, qu, as, n)
              \<longrightarrow> list_all (\<lambda>a. truthy (message_id a)) as
                  \<and> (qt = None \<and> qu = None
                       \<or> (\<exists>tr soup1 k.
                              built_answers e u (candidate_containers page) page = Inr (tr, soup1)
                              \<and> k \<in> fst ` set tr \<and> k \<noteq> []
                              \<and> qt = first_truthy (map text_md (answers_for k tr))
                              \<and> qu = first_some upvotes (answers_for k tr))))
       \<and> (case build_answer_from_div e soup p dv u of
             Inl err \<Rightarrow> comment_loop e u (p # ps) (soup, seen, acc) = Inl err
           | Inr (ans, soup2) \<Rightarrow>
               message_id ans = get_msg_id dv
               \<and> comment_loop e u (p # ps) (soup, seen, acc)
                   = comment_loop e u ps (soup2, seen, acc @ [ans\<lparr>is_accepted := False\<rparr>]))"
proof (intro conjI)
  show "dedup_loop e u (p # ps) (soup, abi, order) = dedup_loop e u ps (soup, abi, order)"
    using assms by simp
  show "built_answers e u (p # ps) soup = built_answers e u ps soup"
    using assms by (simp add: truthy_def split: option.splits)
  show "question_loop soup (p # ps)
      = (if is_question_div dv then Inr (get_msg_id dv) else question_loop soup ps)"
    using assms(1) by simp
  show "\<forall>page qt qu as n. extract_flat_qna e page u = Inr (qt, qu, as, n)
          \<longrightarrow> list_all (\<lambda>a. truthy (message_id a)) as
              \<and> (qt = None \<and> qu = None
                   \<or> (\<exists>tr soup1 k.
                          built_answers e u (candidate_containers page) page = Inr (tr, soup1)
                          \<and> k \<in> fst ` set tr \<and> k \<noteq> []
                          \<and> qt = first_truthy (map text_md (answers_for k tr))
                          \<and> qu = first_some upvotes (answers_for k tr)))"
  proof (intro allI impI)
    fix page qt qu as n
    assume r: "extract_flat_qna e page u = Inr (qt, qu, as, n)"
    have "list_all (\<lambda>a. truthy (message_id a)) as"
      by (rule returned_answers_identified[OF r])
    moreover have "qt = None \<and> qu = None
        \<or> (\<exists>tr soup1 k.
               built_answers e u (candidate_containers page) page = Inr (tr, soup1)
               \<and> k \<in> fst ` set tr \<and> k \<noteq> []
               \<and> qt = first_truthy (map text_md (answers_for k tr))
               \<and> qu = first_some upvotes (answers_for k tr))"
      by (rule question_fields_from_identified[OF r])
    ultimately show "list_all (\<lambda>a. truthy (message_id a)) as
        \<and> (qt = None \<and> qu = None
             \<or> (\<exists>tr soup1 k.
                    built_answers e u (candidate_containers page) page = Inr (tr, soup1)
                    \<and> k \<in> fst ` set tr \<and> k \<noteq> []
                    \<and> qt = first_truthy (map text_md (answers_for k tr))
                    \<and> qu = first_some upvotes (answers_for k tr)))"
      by (rule conjI)
  qed
  show "case build_answer_from_div e soup p dv u of
          Inl err \<Rightarrow> comment_loop e u (p # ps) (soup, seen, acc) = Inl err
        | Inr (ans, soup2) \<Rightarrow>
            message_id ans = get_msg_id dv
            \<and> comment_loop e u (p # ps) (soup, seen, acc)
                = comment_loop e u ps (soup2, seen, acc @ [ans\<lparr>is_accepted := False\<rparr>])"
  proof (cases "build_answer_from_div e soup p dv u")
    case (Inl err)
    then show ?thesis using assms by (simp add: truthy_def split: option.splits)
  next
    case (Inr r)
    obtain ans soup2 where b: "build_answer_from_div e soup p dv u = Inr (ans, soup2)"
      using Inr by (cases r) simp
    have "message_id ans = get_msg_id dv" by (rule build_answer_message_id[OF b])
    moreover have "comment_loop e u (p # ps) (soup, seen, acc)
        = comment_loop e u ps (soup2, seen, acc @ [ans\<lparr>is_accepted := False\<rparr>])"
      using assms b by (simp add: truthy_def split: option.splits)
    ultimately show ?thesis using b by simp
  qed
qed


lemma blog_comment_container:
  "map fst (select_nested css_comment blog_page) = [[0, 1, 1, 0]]
   \<and> at blog_page [0, 1, 1, 0] = Some nameless_container
   \<and> get_msg_id nameless_container = None"
  by code_simp

lemma blog_comment_built:
  "build_answer_from_div sample_env blog_page [0, 1, 1, 0] nameless_container blog_url
     = Inr (blog_comment, blog_page)"
  by code_simp

lemma unmarked_marker:
  "at unmarked_page [0, 1, 0]
     = Some (Tag ''div'' [(''id'', ''message-list''), (''class'', ''lia-thread-topic'')] [])
   \<and> is_question_div (Tag ''div'' [(''id'', ''message-list''), (''class'', ''lia-thread-topic'')] [])
   \<and> get_msg_id (Tag ''div'' [(''id'', ''message-list''), (''class'', ''lia-thread-topic'')] [])
       = None
   \<and> is_question_div nameless_container = False"
  by code_simp

lemma unmarked_parsed:
  "extract_flat_qna sample_env unmarked_page sample_url
     = Inr (Some ''First.'', None, [sample_answer ''8'' None (Some ''Second.'') False None], 1)"
  by code_simp

theorem unidentified_container_skipped_on_qna_kept_on_blog_witness:
  "at blog_page [0, 1, 1, 0] = Some nameless_container
   \<and> get_msg_id nameless_container = None
   \<and> dedup_loop sample_env blog_url [[0, 1, 1, 0]] (blog_page, Map.empty, [])
       = Inr (blog_page, Map.empty, [])
   \<and> built_answers sample_env blog_url [[0, 1, 1, 0]] blog_page = Inr ([], blog_page)
   \<and> question_loop blog_page [[0, 1, 1, 0]] = Inr None
   \<and> comment_loop sample_env blog_url [[0, 1, 1, 0]] (blog_page, [], [])
       = Inr (blog_page, [], [blog_comment])
   \<and> message_id blog_comment = None
   \<and> at unmarked_page [0, 1, 0]
       = Some (Tag ''div'' [(''id'', ''message-list''), (''class'', ''lia-thread-topic'')] [])
   \<and> question_loop unmarked_page [[0, 1, 0], [0, 1, 1], [0, 1, 2]] = Inr None
   \<and> extract_flat_qna sample_env unmarked_page sample_url
       = Inr (Some ''First.'', None, [sample_answer ''8'' None (Some ''Second.'') False None], 1)
   \<and> list_all (\<lambda>a. truthy (message_id a))
         [sample_answer ''8'' None (Some ''Second.'') False None]"
proof -
  let ?marker = "Tag ''div'' [(''id'', ''message-list''), (''class'', ''lia-thread-topic'')] []"
  have a: "at blog_page [0, 1, 1, 0] = Some nameless_container"
    and i: "get_msg_id nameless_container = None"
    using blog_comment_container by simp_all
  have n: "\<not> truthy (get_msg_id nameless_container)" by (simp add: i truthy_def)
  note t = unidentified_container_skipped_on_qna_kept_on_blog[OF a n,
      where e = sample_env and u = blog_url and ps = "[]" and abi = Map.empty
        and order = "[]" and seen = "[]" and acc = "[]"]
  have a': "at unmarked_page [0, 1, 0] = Some ?marker"
    and i': "get_msg_id ?marker = None"
    using unmarked_marker by simp_all
  have n': "\<not> truthy (get_msg_id ?marker)" by (simp add: i' truthy_def)
  note t' = unidentified_container_skipped_on_qna_kept_on_blog[OF a' n',
      where e = sample_env and u = sample_url and ps = "[[0, 1, 1], [0, 1, 2]]"
        and abi = Map.empty and order = "[]" and seen = "[]" and acc = "[]"]
  have c: "blog_comment\<lparr>is_accepted := False\<rparr> = blog_comment" by (simp add: blog_comment_def)
  have q: "question_loop unmarked_page [[0, 1, 0], [0, 1, 1], [0, 1, 2]] = Inr None"
    using t'[THEN conjunct2, THEN conjunct2, THEN conjunct1] unmarked_marker by simp
  have ids: "list_all (\<lambda>a. truthy (message_id a))
      [sample_answer ''8'' None (Some ''Second.'') False None]"
    using t'[THEN conjunct2, THEN conjunct2, THEN conjunct2, THEN conjunct1, rule_format,
        OF unmarked_parsed]
    by (rule conjunct1)
  have d: "dedup_loop sample_env blog_url [[0, 1, 1, 0]] (blog_page, Map.empty, [])
        = Inr (blog_page, Map.empty, [])"
    using t[THEN conjunct1] by simp
  have b: "built_answers sample_env blog_url [[0, 1, 1, 0]] blog_page = Inr ([], blog_page)"
    using t[THEN conjunct2, THEN conjunct1] by simp
  have qb: "question_loop blog_page [[0, 1, 1, 0]] = Inr None"
    using t[THEN conjunct2, THEN conjunct2, THEN conjunct1] unmarked_marker by simp
  have cl: "comment_loop sample_env blog_url [[0, 1, 1, 0]] (blog_page, [], [])
        = Inr (blog_page, [], [blog_comment])"
    using t[THEN conjunct2, THEN conjunct2, THEN conjunct2, THEN conjunct2,
        unfolded blog_comment_built]
    by (simp add: c)
  have m: "message_id blog_comment = None" by (simp add: blog_comment_def)
  show ?thesis
    using a i d b qb cl m a' q unmarked_parsed ids by simp
qed

text \<open>
  C5, as stated, fails on the blog page: the comment container \<open>message-list\<close> has no
  resolvable identifier, and the record holds an answer built from it.
\<close>

theorem unidentified_blog_comment_kept:
  "map fst (select_nested css_comment blog_page) = [[0, 1, 1, 0]]
   \<and> at blog_page [0, 1, 1, 0] = Some nameless_container
   \<and> get_msg_id nameless_container = None
   \<and> parse_blog_page sample_env blog_url blog_page = Inr blog_item
   \<and> answers blog_item = [blog_comment]
   \<and> text_md blog_comment = Some ''Nice post.''"
  using blog_comment_container blog_parsed by (simp add: blog_item_def blog_comment_def)

section \<open>Absent and empty text\<close>

lemma set_sub_from: "set (sub_from r repl b k s) \<subseteq> set s \<union> set repl"
proof (induction s arbitrary: b k)
  case Nil
  show ?case by simp
next
  case (Cons c cs)
  show ?case
    using Cons[of "c # b" "k - 1"] Cons[of "c # b" 0] Cons[of "c # b"]
    by (auto split: option.splits)
qed

lemma set_re_sub: "set (re_sub r repl s) \<subseteq> set s \<union> set repl"
  by (simp add: re_sub_def set_sub_from)

lemma strip_all_space: "list_all is_space s \<Longrightarrow> strip s = []"
proof -
  assume "list_all is_space s"
  then have d: "dropWhile is_space s = []" by (induction s) auto
  show ?thesis unfolding strip_def d by simp
qed

lemma is_space_blank: "is_space CHR '' ''" "is_space nl"
  by (simp_all add: is_space_def nl_def)

lemma tidy_all_space:
  assumes "list_all is_space s"
  shows "tidy s = []"
proof -
  let ?a = "replace_char (CHR 0xA0) CHR '' '' s"
  let ?b = "re_sub (rplus (\<lambda>c. c = CHR '' '' \<or> c = CHR 0x09)) '' '' ?a"
  let ?c = "re_sub (seqs [Lit [nl], rstar is_space, Lit [nl], rstar is_space,
                          rplus (\<lambda>c. c = nl)]) [nl, nl] ?b"
  have a: "list_all is_space ?a"
    using assms by (auto simp: replace_char_def list_all_iff is_space_blank)
  have "set ?b \<subseteq> set ?a \<union> set '' ''" by (rule set_re_sub)
  then have b: "list_all is_space ?b"
    using a by (auto simp: list_all_iff is_space_blank)
  have "set ?c \<subseteq> set ?b \<union> set [nl, nl]" by (rule set_re_sub)
  then have c: "list_all is_space ?c"
    using b by (auto simp: list_all_iff is_space_blank)
  show ?thesis
    unfolding tidy_def Let_def by (rule strip_all_space[OF c])
qed

lemma body_text_not_empty: "fst (extract_body_markdown e c u) \<noteq> Some []"
  by (auto simp: extract_body_markdown_def Let_def split: option.splits)

lemma built_text_not_empty:
  "build_answer_from_div e soup p dv u = Inr (ans, soup') \<Longrightarrow> text_md ans \<noteq> Some []"
  using body_text_not_empty[of e dv u]
  by (auto simp: build_answer_from_div_def Let_def split: prod.splits sum.splits)

lemma built_answers_texts:
  "built_answers e u ps soup = Inr (tr, soup1) \<Longrightarrow> \<forall>(m, a) \<in> set tr. text_md a \<noteq> Some []"
proof (induction ps arbitrary: soup tr)
  case Nil
  then show ?case by simp
next
  case (Cons p ps)
  from built_answers_Cons[OF Cons.prems] show ?case
  proof
    assume "built_answers e u ps soup = Inr (tr, soup1)"
    then show ?thesis by (rule Cons.IH)
  next
    assume "\<exists>dv m ans soup' tr'. at soup p = Some dv \<and> get_msg_id dv = Some m \<and> m \<noteq> []
         \<and> build_answer_from_div e soup p dv u = Inr (ans, soup')
         \<and> built_answers e u ps soup' = Inr (tr', soup1) \<and> tr = (m, ans) # tr'"
    then obtain dv m ans soup' tr' where h:
        "build_answer_from_div e soup p dv u = Inr (ans, soup')"
        "built_answers e u ps soup' = Inr (tr', soup1)" "tr = (m, ans) # tr'"
      by blast
    show ?thesis using Cons.IH[OF h(2)] built_text_not_empty[OF h(1)] h(3) by simp
  qed
qed

lemma first_truthy_not_empty:
  "\<forall>v \<in> set vs. v \<noteq> Some [] \<Longrightarrow> first_truthy vs \<noteq> Some []"
proof (cases vs)
  case Nil
  then show ?thesis by simp
next
  case (Cons v ws)
  assume all: "\<forall>v \<in> set vs. v \<noteq> Some []"
  show ?thesis
  proof (cases "find truthy ws")
    case None
    then show ?thesis using all Cons by simp
  next
    case (Some w)
    then have "w \<in> set ws" by (auto simp: find_Some_iff)
    then show ?thesis using all Cons Some by auto
  qed
qed

lemma merged_text_not_empty:
  assumes "built_answers e u ps soup = Inr (tr, soup1)" and "merged tr k = Some a"
  shows "text_md a \<noteq> Some []"
proof -
  from assms(2) have ne: "answers_for k tr \<noteq> []"
    by (auto simp: merged_def split: list.splits)
  from merged_fields[OF ne] assms(2)
  have t: "text_md a = first_truthy (map text_md (answers_for k tr))" by auto
  have "\<forall>v \<in> set (map text_md (answers_for k tr)). v \<noteq> Some []"
    using built_answers_texts[OF assms(1)] by (auto simp: answers_for_def)
  then show ?thesis unfolding t by (rule first_truthy_not_empty)
qed

lemma flat_qna_texts_not_empty:
  assumes "extract_flat_qna e soup u = Inr (qt, qu, as, n)"
  shows "qt \<noteq> Some [] \<and> list_all (\<lambda>a. text_md a \<noteq> Some []) as"
proof -
  from extract_flat_qna_stages[OF assms] obtain tr soup1 q0
    where b: "built_answers e u (candidate_containers soup) soup = Inr (tr, soup1)"
      and q: "question_loop soup1 (candidate_containers soup) = Inr q0"
    by blast
  let ?order = "ids_in_order tr"
  let ?q = "fallback_question q0 ?order"
  have listed: "\<And>k. k \<in> set ?order \<Longrightarrow> text_md (the (merged tr k)) \<noteq> Some []"
  proof -
    fix k assume "k \<in> set ?order"
    from merged_of_listed[OF b this] obtain a where a: "merged tr k = Some a" by blast
    from merged_text_not_empty[OF b a] a show "text_md (the (merged tr k)) \<noteq> Some []" by simp
  qed
  have res: "qt = (case ?q of None \<Rightarrow> None
                 | Some k \<Rightarrow> if k \<in> set ?order then text_md (the (merged tr k)) else None)"
    and as: "as = map (\<lambda>k. flagged (extract_json_ld_accepted_ids e soup1) k (the (merged tr k)))
                      (filter (\<lambda>m. Some m \<noteq> ?q) ?order)"
    using extract_flat_qna_result[OF b q] assms by simp_all
  have "qt \<noteq> Some []"
    unfolding res using listed by (auto split: option.splits)
  moreover have "list_all (\<lambda>a. text_md a \<noteq> Some []) as"
    unfolding as using listed by (auto simp: list_all_iff flagged_fields)
  ultimately show ?thesis by simp
qed

text \<open>
  C6, as amended. The body extraction used for the message containers never returns the
  empty string: a body that renders to nothing gives an absent text, so the text of a built
  answer, the text of a returned answer and the question text of a Q&A page are absent or
  not empty. The renderer itself returns a string: the empty one when the pieces it
  collected hold nothing but whitespace.
\<close>

theorem absent_text_in_answers_empty_string_from_renderer:
  "fst (extract_body_markdown e c u) \<noteq> Some []
   \<and> (\<forall>ans soup'. build_answer_from_div e soup p dv u = Inr (ans, soup') \<longrightarrow> text_md ans \<noteq> Some [])
   \<and> (\<forall>qt qu as n. extract_flat_qna e soup u = Inr (qt, qu, as, n)
          \<longrightarrow> qt \<noteq> Some [] \<and> list_all (\<lambda>a. text_md a \<noteq> Some []) as)
   \<and> (list_all is_space (concat (walk e u n [])) \<longrightarrow> node_to_markdown e n u = [])"
  using body_text_not_empty[of e c u] built_text_not_empty[of e soup p dv u]
    flat_qna_texts_not_empty[of e soup u] tidy_all_space[of "concat (walk e u n [])"]
  by (simp add: node_to_markdown_def)


lemma silent_container_built:
  "at sample_page [0, 1, 3] = Some silent_container
   \<and> extract_body_markdown sample_env silent_container sample_url = (None, silent_container)
   \<and> build_answer_from_div sample_env sample_page [0, 1, 3] silent_container sample_url
       = Inr (sample_answer ''55'' (Some ''2023-05-10T14:22:00Z'') None False None, sample_page)"
  by code_simp

lemma empty_article_rendered:
  "blog_article blog_page = Some empty_article
   \<and> concat (walk sample_env blog_url empty_article []) = [nl]
   \<and> node_to_markdown sample_env empty_article blog_url = []"
  by code_simp

lemma empty_article_pieces:
  "concat (walk sample_env sample_url empty_article []) = [nl]
   \<and> node_to_markdown sample_env empty_article sample_url = []"
  by code_simp

theorem absent_text_in_answers_empty_string_from_renderer_witness:
  "fst (extract_body_markdown sample_env silent_container sample_url) = None
   \<and> build_answer_from_div sample_env sample_page [0, 1, 3] silent_container sample_url
       = Inr (sample_answer ''55'' (Some ''2023-05-10T14:22:00Z'') None False None, sample_page)
   \<and> text_md (sample_answer ''55'' (Some ''2023-05-10T14:22:00Z'') None False None) = None
   \<and> extract_flat_qna sample_env sample_page sample_url
       = Inr (Some ''How do I configure X?'', None, sample_answers, 2)
   \<and> map text_md sample_answers = [Some ''Use config Y.'', Some ''See the guide.'']
   \<and> list_all is_space (concat (walk sample_env sample_url empty_article []))
   \<and> node_to_markdown sample_env empty_article sample_url = []"
  using absent_text_in_answers_empty_string_from_renderer[of sample_env silent_container
      sample_url sample_page "[0, 1, 3]" silent_container empty_article]
    silent_container_built sample_result empty_article_pieces is_space_blank
  by (simp add: sample_answers_def sample_answer_def)

text \<open>
  C6, as stated, fails on the blog page: the article body holds no text, the renderer
  returns the empty string for it, and the record's question text is that empty string, not
  an absent value.
\<close>

theorem empty_article_gives_empty_string:
  "blog_article blog_page = Some empty_article
   \<and> node_to_markdown sample_env empty_article blog_url = []
   \<and> parse_blog_page sample_env blog_url blog_page = Inr blog_item
   \<and> question_text blog_item = Some []"
  using empty_article_rendered blog_parsed by (simp add: blog_item_def)

section \<open>Mentions in the renderer\<close>

lemma walk_anchor:
  assumes "lower nm = ''a''"
  shows "walk e base_url (Tag nm a cs) pieces = pieces @ [anchor_piece e base_url (Tag nm a cs)]"
  using assms by (simp add: branch_of_def)

lemma walk_children_append:
  "walk_children e base_url (xs @ ys) pieces
     = walk_children e base_url ys (walk_children e base_url xs pieces)"
  by (induction xs arbitrary: pieces) simp_all

text \<open>
  C4, as amended. For an anchor element whose visible text (\<open>get_text(" ", strip=True)\<close>)
  begins with \<open>@\<close>, whatever its attributes: \<open>walk\<close> appends that text, unchanged, as
  one piece, wherever the anchor stands among the children that are walked; the piece is not
  a Markdown link \<open>[text](target)\<close> for any target; and the output of the renderer
  is the clean-up of the joined pieces, so that the rendering of the anchor alone is the
  clean-up of its text (runs of blanks and tabs collapsed, the ends stripped) and not in
  every case the text itself.
\<close>

theorem mention_rendered_as_plain_text:
  assumes "lower nm = ''a''"
      and "startswith (get_text_strip '' '' (Tag nm a cs)) ''@''"
  shows "walk e base_url (Tag nm a cs) pieces = pieces @ [get_text_strip '' '' (Tag nm a cs)]
       \<and> (\<forall>target. walk e base_url (Tag nm a cs) pieces
              \<noteq> pieces @ [''['' @ get_text_strip '' '' (Tag nm a cs) @ '']('' @ target @ '')''])
       \<and> walk_children e base_url (pre @ Tag nm a cs # post) pieces
           = walk_children e base_url post
               (walk_children e base_url pre pieces @ [get_text_strip '' '' (Tag nm a cs)])
       \<and> node_to_markdown e (Tag nm a cs) base_url = tidy (get_text_strip '' '' (Tag nm a cs))"
proof -
  have ap: "anchor_piece e base_url (Tag nm a cs) = get_text_strip '' '' (Tag nm a cs)"
    using assms(2) by (simp add: anchor_piece_def Let_def)
  have w: "\<And>ps. walk e base_url (Tag nm a cs) ps = ps @ [get_text_strip '' '' (Tag nm a cs)]"
    by (simp only: walk_anchor[OF assms(1)] ap)
  have "\<And>target. get_text_strip '' '' (Tag nm a cs)
      \<noteq> ''['' @ get_text_strip '' '' (Tag nm a cs) @ '']('' @ target @ '')''"
  proof
    fix target
    assume "get_text_strip '' '' (Tag nm a cs)
      = ''['' @ get_text_strip '' '' (Tag nm a cs) @ '']('' @ target @ '')''"
    then have "length (get_text_strip '' '' (Tag nm a cs))
      = length (''['' @ get_text_strip '' '' (Tag nm a cs) @ '']('' @ target @ '')'')"
      by (rule arg_cong)
    then show False by simp
  qed
  moreover have "walk_children e base_url (pre @ Tag nm a cs # post) pieces
      = walk_children e base_url post
          (walk_children e base_url pre pieces @ [get_text_strip '' '' (Tag nm a cs)])"
    by (simp only: walk_children_append walk_children.simps w)
  ultimately show ?thesis
    using w[of pieces] w[of "[]"] by (simp add: node_to_markdown_def)
qed

lemma mention_pieces:
  "lower ''a'' = ''a''
   \<and> get_text_strip '' '' mention = ''@JohnDoe''
   \<and> has_attr mention ''href''
   \<and> walk sample_env sample_url mention [''Thanks ''] = [''Thanks '', ''@JohnDoe'']
   \<and> walk_children sample_env sample_url
         [NavigableString ''Thanks '', mention, NavigableString ''!''] []
       = [''Thanks '', ''@JohnDoe'', ''!'']
   \<and> node_to_markdown sample_env mention sample_url = ''@JohnDoe''
   \<and> node_to_markdown sample_env mention_body sample_url
       = ''Thanks @JohnDoe, see [the docs](https://community.sap.com/t5/foo)''"
  by code_simp

theorem mention_rendered_as_plain_text_witness:
  "lower ''a'' = ''a''
   \<and> startswith (get_text_strip '' '' mention) ''@''
   \<and> has_attr mention ''href''
   \<and> walk sample_env sample_url mention [''Thanks ''] = [''Thanks '', ''@JohnDoe'']
   \<and> walk_children sample_env sample_url
         ([NavigableString ''Thanks ''] @ mention # [NavigableString ''!'']) []
       = [''Thanks '', ''@JohnDoe'', ''!'']
   \<and> node_to_markdown sample_env mention sample_url = ''@JohnDoe''
   \<and> tidy (get_text_strip '' '' mention) = ''@JohnDoe''
   \<and> node_to_markdown sample_env mention_body sample_url
       = ''Thanks @JohnDoe, see [the docs](https://community.sap.com/t5/foo)''"
proof -
  have l: "lower ''a'' = ''a''" and s: "startswith (get_text_strip '' '' mention) ''@''"
    using mention_pieces by (simp_all add: startswith_def)
  note t = mention_rendered_as_plain_text[of "''a''"
      "[(''href'', ''/t5/user/viewprofilepage/user-id/7'')]" "[NavigableString ''@JohnDoe'']"
      sample_env sample_url "[''Thanks '']" "[NavigableString ''Thanks '']"
      "[NavigableString ''!'']", folded mention_def, OF l s]
  show ?thesis using t l s mention_pieces by simp
qed

text \<open>
  C4, as stated, fails for a mention whose text holds two blanks in a row: the visible text
  begins with \<open>@\<close>, and the renderer's output is not that text but the text with the
  blanks collapsed into one.
\<close>

theorem spaced_mention_not_verbatim:
  "lower ''a'' = ''a''
   \<and> get_text_strip '' '' spaced_mention = ''@John  Doe''
   \<and> startswith (get_text_strip '' '' spaced_mention) ''@''
   \<and> node_to_markdown sample_env spaced_mention sample_url = ''@John Doe''
   \<and> node_to_markdown sample_env spaced_mention sample_url
       \<noteq> get_text_strip '' '' spaced_mention"
  by code_simp

section \<open>Structured data that does not parse\<close>

lemma walk_json_loads:
  "walk (e\<lparr>json_loads := f\<rparr>) b n ps = walk e b n ps"
  "walk_children (e\<lparr>json_loads := f\<rparr>) b cs ps = walk_children e b cs ps"
  "walk_items (e\<lparr>json_loads := f\<rparr>) b cs ps = walk_items e b cs ps"
proof (induction e b n ps and e b cs ps and e b cs ps rule: walk_walk_children_walk_items.induct)
  case (4 e base_url nm a cs pieces)
  then show ?case
    by (cases "branch_of (lower nm)")
       (simp_all add: anchor_piece_def image_pieces_def absolutize_def Let_def)
qed simp_all


lemma node_to_markdown_json_loads:
  "node_to_markdown (e\<lparr>json_loads := f\<rparr>) n u = node_to_markdown e n u"
  by (simp add: node_to_markdown_def walk_json_loads)

lemma extract_body_json_loads:
  "extract_body_markdown (e\<lparr>json_loads := f\<rparr>) c u = extract_body_markdown e c u"
  unfolding extract_body_markdown_def node_to_markdown_json_loads ..

lemma build_answer_json_loads:
  "build_answer_from_div (e\<lparr>json_loads := f\<rparr>) soup p dv u = build_answer_from_div e soup p dv u"
  unfolding build_answer_from_div_def extract_body_json_loads
  by (simp add: Let_def split: prod.splits sum.splits)

lemma built_answers_json_loads:
  "built_answers (e\<lparr>json_loads := f\<rparr>) u ps soup = built_answers e u ps soup"
  by (induction ps arbitrary: soup)
     (simp_all add: build_answer_json_loads split: option.splits prod.splits sum.splits)

lemma extraction_fails_whatever_decoder:
  "isl (extract_flat_qna (e\<lparr>json_loads := f\<rparr>) soup u) = isl (extract_flat_qna e soup u)"
proof (cases "built_answers e u (candidate_containers soup) soup")
  case (Inl err)
  then show ?thesis
    by (simp add: extract_flat_qna_unfold dedup_loop_built built_answers_json_loads)
next
  case (Inr b)
  obtain tr soup1 where b: "built_answers e u (candidate_containers soup) soup = Inr (tr, soup1)"
    using Inr by (cases b) auto
  then have b': "built_answers (e\<lparr>json_loads := f\<rparr>) u (candidate_containers soup) soup
      = Inr (tr, soup1)"
    by (simp add: built_answers_json_loads)
  show ?thesis
  proof (cases "question_loop soup1 (candidate_containers soup)")
    case (Inl err)
    then show ?thesis
      using b b' by (simp add: extract_flat_qna_unfold dedup_loop_built foldl_store_empty)
  next
    case q: (Inr q0)
    show ?thesis
      by (simp add: extract_flat_qna_result[OF b q] extract_flat_qna_result[OF b' q])
  qed
qed

lemma page_fails_whatever_decoder:
  "isl (parse_qna_page (e\<lparr>json_loads := f\<rparr>) u soup) = isl (parse_qna_page e u soup)"
proof -
  have "\<And>env. isl (parse_qna_page env u soup) = isl (extract_flat_qna env soup u)"
    by (simp add: parse_qna_page_def split: sum.splits prod.splits)
  then show ?thesis by (simp add: extraction_fails_whatever_decoder)
qed

lemma sub_from_no_start:
  assumes "\<And>b c cs. c \<in> set s \<Longrightarrow> match_len r b (c # cs) = None"
  shows "sub_from r repl b 0 s = s"
  using assms
proof (induction s arbitrary: b)
  case Nil
  show ?case by simp
next
  case (Cons c cs)
  have "match_len r b (c # cs) = None" by (rule Cons.prems) simp
  moreover have "sub_from r repl (c # b) 0 cs = cs"
    by (rule Cons.IH) (simp add: Cons.prems)
  ultimately show ?case by simp
qed

lemma comma_pattern_needs_comma:
  "c \<noteq> CHR '','' \<Longrightarrow> match_len (seqs [Lit '','', rstar is_space, Lit x]) b (c # cs) = None"
  by (simp add: match_len_def)

lemma trailing_comma_fix_no_comma:
  assumes "CHR '','' \<notin> set s"
  shows "trailing_comma_fix s = s"
proof -
  have none: "\<And>x b c cs. c \<in> set s
      \<Longrightarrow> match_len (seqs [Lit '','', rstar is_space, Lit x]) b (c # cs) = None"
  proof -
    fix x b c cs
    assume "c \<in> set s"
    then have "c \<noteq> CHR '',''" using assms by auto
    then show "match_len (seqs [Lit '','', rstar is_space, Lit x]) b (c # cs) = None"
      by (rule comma_pattern_needs_comma)
  qed
  have "\<And>x. re_sub (seqs [Lit '','', rstar is_space, Lit x]) x s = s"
    unfolding re_sub_def by (rule sub_from_no_start) (rule none)
  then show ?thesis by (simp only: trailing_comma_fix_def)
qed

text \<open>
  C8. For the text of a structured-data script: when the first parse fails, the repaired
  text (the commas before a closing brace or bracket removed, with the whitespace between)
  is parsed once, and the block counts if that parse succeeds and is skipped if not; when
  the first parse succeeds nothing is repaired; a text without a comma is repaired to
  itself. \<open>extract_json_ld\<close> does this for each script in turn and returns a list in every
  case, and whether the extraction of a Q&A page ends in an error does not depend on what
  the parser does with any text.
\<close>

theorem json_ld_block_repaired_once_or_skipped:
  "(c \<noteq> [] \<and> json_loads e c = None
      \<longrightarrow> parse_block e c = (case json_loads e (trailing_comma_fix c) of
                                Some j \<Rightarrow> [j] | None \<Rightarrow> []))
   \<and> (\<forall>j. c \<noteq> [] \<and> json_loads e c = Some j \<longrightarrow> parse_block e c = [j])
   \<and> (json_loads e c = None \<and> json_loads e (trailing_comma_fix c) = None
        \<longrightarrow> parse_block e c = [])
   \<and> extract_json_ld e soup
       = concat (map (\<lambda>t. parse_block e (script_content t)) (ld_scripts soup))
   \<and> (CHR '','' \<notin> set c \<longrightarrow> trailing_comma_fix c = c)
   \<and> (\<forall>f. isl (extract_flat_qna (e\<lparr>json_loads := f\<rparr>) soup u)
            = isl (extract_flat_qna e soup u))
   \<and> (\<forall>f. isl (parse_qna_page (e\<lparr>json_loads := f\<rparr>) u soup) = isl (parse_qna_page e u soup))"
  using trailing_comma_fix_no_comma[of c]
    extraction_fails_whatever_decoder[where e = e and soup = soup and u = u]
    page_fails_whatever_decoder[where e = e and soup = soup and u = u]
  by (simp add: parse_block_def extract_json_ld_def)


lemma broken_blocks_parsed:
  "comma_ld \<noteq> []
   \<and> json_loads sample_env comma_ld = None
   \<and> trailing_comma_fix comma_ld = answer_ld
   \<and> parse_block sample_env comma_ld = [answer_ld_json]
   \<and> json_loads sample_env truncated_ld = None
   \<and> json_loads sample_env (trailing_comma_fix truncated_ld) = None
   \<and> parse_block sample_env truncated_ld = []"
  by code_simp

theorem json_ld_block_repaired_once_or_skipped_witness:
  "comma_ld \<noteq> []
   \<and> json_loads sample_env comma_ld = None
   \<and> trailing_comma_fix comma_ld = answer_ld
   \<and> json_loads sample_env (trailing_comma_fix comma_ld) = Some answer_ld_json
   \<and> parse_block sample_env comma_ld = [answer_ld_json]
   \<and> json_loads sample_env truncated_ld = None
   \<and> json_loads sample_env (trailing_comma_fix truncated_ld) = None
   \<and> parse_block sample_env truncated_ld = []
   \<and> \<not> isl (extract_flat_qna sample_env sample_page sample_url)
   \<and> \<not> isl (extract_flat_qna (sample_env\<lparr>json_loads := \<lambda>s. None\<rparr>) sample_page sample_url)"
  using json_ld_block_repaired_once_or_skipped[where c = comma_ld and e = sample_env
        and soup = sample_page and u = sample_url]
    json_ld_block_repaired_once_or_skipped[where c = truncated_ld and e = sample_env
        and soup = sample_page and u = sample_url]
    broken_blocks_parsed sample_result
  by (auto simp: sample_env_def)

section \<open>A page without identified containers\<close>

lemma at_here: "n \<noteq> Decomposed \<Longrightarrow> at n [] = Some n"
  by (cases n) simp_all

lemma at_child:
  "at (Tag nm a (pre @ c # cs)) (length pre # p) = at c p"
  by simp

lemma paths_valid:
  "(p, d) \<in> set (paths n) \<Longrightarrow> at n p = Some d"
  "(p, d) \<in> set (paths_list i cs) \<Longrightarrow> length pre = i \<Longrightarrow> at (Tag nm a (pre @ cs)) p = Some d"
proof (induction n and i cs arbitrary: p d and p d pre nm a rule: paths_paths_list.induct)
  case (1 nm a cs)
  then show ?case using "1.IH"[of p d "[]" nm a] by simp
next
  case (2 s)
  then show ?case by simp
next
  case (3 k s)
  then show ?case by simp
next
  case 4
  then show ?case by simp
next
  case (5 i)
  then show ?case by simp
next
  case (6 i c cs)
  have tail: "(p, d) \<in> set (paths_list (Suc i) cs) \<Longrightarrow> at (Tag nm a (pre @ c # cs)) p = Some d"
    using "6.IH"(1)[of p d "pre @ [c]" nm a] "6.IH"(3)[of p d "pre @ [c]" nm a] "6.prems"(2)
    by (cases "c = Decomposed") simp_all
  show ?case
  proof (cases "c = Decomposed")
    case True
    then show ?thesis using "6.prems" tail by simp
  next
    case False
    from "6.prems"(1) False
    consider "(p, d) = ([i], c)" | q where "p = i # q" "(q, d) \<in> set (paths c)"
      | "(p, d) \<in> set (paths_list (Suc i) cs)"
      by auto
    then show ?thesis
    proof cases
      case 1
      then show ?thesis using False "6.prems"(2) at_child[of nm a pre c cs "[]"]
        by (simp add: at_here del: at.simps)
    next
      case 2
      then show ?thesis using "6.IH"(2)[OF False, of q d] "6.prems"(2) at_child[of nm a pre c cs q]
        by (simp del: at.simps)
    next
      case 3
      then show ?thesis by (rule tail)
    qed
  qed
qed

lemma select_valid: "(p, d) \<in> set (select P n) \<Longrightarrow> at n p = Some d"
  by (auto simp: select_def dest: paths_valid(1))

lemma at_append: "at n w = Some x \<Longrightarrow> at n (w @ p) = at x p"
proof (induction w arbitrary: n)
  case Nil
  then show ?case by (cases n) simp_all
next
  case (Cons i w)
  show ?case
  proof (cases n)
    case (Tag nm a cs)
    then show ?thesis using Cons by (simp split: if_splits)
  next
    case (NavigableString s)
    then show ?thesis using Cons.prems by simp
  next
    case (Typed_string k s)
    then show ?thesis using Cons.prems by simp
  next
    case Decomposed
    then show ?thesis using Cons.prems by simp
  qed
qed

lemma append_new_valid:
  assumes "\<forall>(p, d) \<in> set containers. at soup p = Some d"
      and "at soup w = Some wrap"
      and "\<forall>(p, m) \<in> set inner. at wrap p = Some m"
  shows "\<forall>(p, d) \<in> set (append_new containers w inner). at soup p = Some d"
  using assms(1,3) unfolding append_new_def
proof (induction inner arbitrary: containers)
  case Nil
  then show ?case by simp
next
  case (Cons x inner)
  obtain p m where x: "x = (p, m)" by (cases x)
  have "at soup (w @ p) = Some m"
    using Cons.prems(2) x at_append[OF assms(2), of p] by simp
  then have "\<forall>(q, d) \<in> set (if m \<notin> set (map snd containers) then containers @ [(w @ p, m)]
                              else containers). at soup q = Some d"
    using Cons.prems(1) by auto
  then show ?case using Cons.IH Cons.prems(2) x by simp
qed

lemma candidate_containers_valid:
  "p \<in> set (candidate_containers soup) \<Longrightarrow> \<exists>d. at soup p = Some d"
proof -
  have inv: "\<And>ws containers.
      \<forall>(w, wrap) \<in> set ws. at soup w = Some wrap \<Longrightarrow>
      \<forall>(p, d) \<in> set containers. at soup p = Some d \<Longrightarrow>
      \<forall>(p, d) \<in> set (foldl (\<lambda>containers (w, wrap).
                                    append_new containers w (select css_message wrap))
                               containers ws). at soup p = Some d"
  proof -
    fix ws :: "(path \<times> node) list" and containers :: "(path \<times> node) list"
    assume "\<forall>(w, wrap) \<in> set ws. at soup w = Some wrap"
      and "\<forall>(p, d) \<in> set containers. at soup p = Some d"
    then show "\<forall>(p, d) \<in> set (foldl (\<lambda>containers (w, wrap).
                                    append_new containers w (select css_message wrap))
                               containers ws). at soup p = Some d"
    proof (induction ws arbitrary: containers)
      case Nil
      then show ?case by simp
    next
      case (Cons x ws)
      obtain w wrap where x: "x = (w, wrap)" by (cases x)
      have w: "at soup w = Some wrap" using Cons.prems(1) x by simp
      have inner: "\<forall>(p, m) \<in> set (select css_message wrap). at wrap p = Some m"
        using select_valid[of _ _ css_message wrap] by auto
      have "\<forall>(p, d) \<in> set (append_new containers w (select css_message wrap)).
          at soup p = Some d"
        by (rule append_new_valid[OF Cons.prems(2) w inner])
      then show ?case using Cons.IH Cons.prems(1) x by simp
    qed
  qed
  have a: "\<forall>(w, wrap) \<in> set (select css_accepted_wrapper soup). at soup w = Some wrap"
    using select_valid[of _ _ css_accepted_wrapper soup] by auto
  have b: "\<forall>(p, d) \<in> set (select css_message soup). at soup p = Some d"
    using select_valid[of _ _ css_message soup] by auto
  assume "p \<in> set (candidate_containers soup)"
  then show ?thesis
    using inv[OF a b] by (auto simp: candidate_containers_def)
qed

lemma built_answers_none_identified:
  "\<forall>p \<in> set ps. \<exists>dv. at soup p = Some dv \<and> \<not> truthy (get_msg_id dv)
   \<Longrightarrow> built_answers e u ps soup = Inr ([], soup)"
  by (induction ps) (auto simp: truthy_def split: option.splits)

lemma question_loop_total:
  "\<forall>p \<in> set ps. \<exists>dv. at soup p = Some dv \<Longrightarrow> \<exists>q0. question_loop soup ps = Inr q0"
  by (induction ps) auto

text \<open>
  C9. When no candidate container of a Q&A page has an identifier (there may be none at
  all), \<open>parse_qna_page\<close> returns a record and raises nothing: its answers are empty, its
  reply count is 0, its question text and upvotes are absent, and its page-level fields are
  those extracted from the page.
\<close>

theorem no_identified_container_gives_empty_record:
  assumes "\<forall>p \<in> set (candidate_containers soup). \<forall>dv. at soup p = Some dv
             \<longrightarrow> \<not> truthy (get_msg_id dv)"
  shows "\<exists>item. parse_qna_page e u soup = Inr item
           \<and> answers item = [] \<and> reply_count item = Some 0
           \<and> question_text item = None \<and> question_upvotes item = None
           \<and> url item = u \<and> content_type item = ''qna''
           \<and> title item = common_title soup \<and> page_author item = common_author soup
           \<and> published_at item = common_published soup \<and> updated_at item = common_updated soup
           \<and> board item = extract_board_from_url e u \<and> tags item = common_tags soup"
proof -
  have all: "\<forall>p \<in> set (candidate_containers soup).
      \<exists>dv. at soup p = Some dv \<and> \<not> truthy (get_msg_id dv)"
    using assms candidate_containers_valid[of _ soup] by blast
  have b: "built_answers e u (candidate_containers soup) soup = Inr ([], soup)"
    by (rule built_answers_none_identified[OF all])
  from all have "\<forall>p \<in> set (candidate_containers soup). \<exists>dv. at soup p = Some dv" by blast
  from question_loop_total[OF this] obtain q0
    where q: "question_loop soup (candidate_containers soup) = Inr q0" by blast
  have "extract_flat_qna e soup u = Inr (None, None, [], 0)"
    using extract_flat_qna_result[OF b q]
    by (simp add: ids_in_order_def fallback_question_def split: option.splits)
  then show ?thesis by (simp add: parse_qna_page_def)
qed

lemma bare_container:
  "candidate_containers bare_page = [[0, 1, 1]]
   \<and> at bare_page [0, 1, 1] = Some (Tag ''div'' [(''id'', ''message-list'')] [para ''Nothing here.''])
   \<and> get_msg_id (Tag ''div'' [(''id'', ''message-list'')] [para ''Nothing here.'']) = None
   \<and> common_title bare_page = Some ''No thread''
   \<and> common_tags bare_page = [''ABAP'']"
  by code_simp

theorem no_identified_container_gives_empty_record_witness:
  "candidate_containers bare_page = [[0, 1, 1]]
   \<and> at bare_page [0, 1, 1] = Some (Tag ''div'' [(''id'', ''message-list'')] [para ''Nothing here.''])
   \<and> \<not> truthy (get_msg_id (Tag ''div'' [(''id'', ''message-list'')] [para ''Nothing here.'']))
   \<and> parse_qna_page sample_env sample_url bare_page = Inr bare_item
   \<and> answers bare_item = [] \<and> reply_count bare_item = Some 0
   \<and> question_text bare_item = None \<and> question_upvotes bare_item = None
   \<and> title bare_item = Some ''No thread'' \<and> tags bare_item = [''ABAP'']"
proof -
  have h: "\<forall>p \<in> set (candidate_containers bare_page). \<forall>dv. at bare_page p = Some dv
             \<longrightarrow> \<not> truthy (get_msg_id dv)"
    using bare_container by (simp add: truthy_def)
  note t = no_identified_container_gives_empty_record[OF h, of sample_env sample_url]
  show ?thesis
    using t bare_container bare_parsed by (simp add: truthy_def bare_item_def)
qed

section \<open>A marked container without identifier\<close>












end
